theory Spec2Isabelle
  imports Main "HOL-Library.Word" "HOL-Library.Sublist"
begin

text \<open>
  The Bazaar query server (\<open>main.go\<close>): it reads search requests and monitored
  items from a configuration file, turns each into a query of the Bazaar page of the
  Magelo site, scrapes the result table and writes the rows to two CSV files. This
  theory holds a model of the program as functions on its state, with the network, the
  configuration parser and the hash function as parameters, and proofs of properties of
  its query translation, its scraping, its two result stores and its search cache.
\<close>

section \<open>Library functions used by the server\<close>

text \<open>
  Go strings are byte sequences; they are modelled as \<open>string\<close> (a list of 8-bit
  characters). The standard-library functions that \<open>main.go\<close> calls on strings are
  written out here after their documented behaviour: \<open>url.QueryEscape\<close>,
  \<open>strings.TrimSpace\<close>, \<open>strings.Split\<close> with separator \<open>|\<close>,
  \<open>hex.EncodeToString\<close>, and the matching of the one regular expression of the program.
\<close>

definition between :: "char \<Rightarrow> char \<Rightarrow> char \<Rightarrow> bool" where
  "between lo hi c = (of_char lo \<le> (of_char c :: nat) \<and> of_char c \<le> (of_char hi :: nat))"

definition isAlnum :: "char \<Rightarrow> bool" where
  "isAlnum c =
     (between CHR ''a'' CHR ''z'' c \<or> between CHR ''A'' CHR ''Z'' c \<or> between CHR ''0'' CHR ''9'' c)"

subsection \<open>url.QueryEscape\<close>

text \<open>
  \<open>shouldEscape\<close> in query-component mode: letters, digits and the marks
  \<open>- _ . ~\<close> stay, every other byte is escaped. A space is written \<open>+\<close>, any other
  escaped byte as \<open>%\<close> and two upper-case hexadecimal digits.
\<close>

definition shouldEscape :: "char \<Rightarrow> bool" where
  "shouldEscape c = (if isAlnum c then False else if c \<in> set ''-_.~'' then False else True)"

definition upperhex :: "nat \<Rightarrow> char" where
  "upperhex n = ''0123456789ABCDEF'' ! n"

definition escapeByte :: "char \<Rightarrow> string" where
  "escapeByte c =
     (if shouldEscape c then
        (if c = CHR '' '' then ''+''
         else [CHR ''%'', upperhex (of_char c div 16), upperhex (of_char c mod 16)])
      else [c])"

definition QueryEscape :: "string \<Rightarrow> string" where
  "QueryEscape s = concat (map escapeByte s)"

subsection \<open>strings.TrimSpace\<close>

text \<open>
  White space is what \<open>unicode.IsSpace\<close> accepts: the six ASCII characters
  tab, line feed, vertical tab, form feed, carriage return and space, and the code points
  U+0085, U+00A0, U+1680, U+2000 to U+200A, U+2028, U+2029, U+202F, U+205F and U+3000,
  which appear in a Go string as their UTF-8 encodings.
\<close>

definition asciiSpace :: "char \<Rightarrow> bool" where
  "asciiSpace c = (c \<in> set [CHR 0x09, CHR 0x0A, CHR 0x0B, CHR 0x0C, CHR 0x0D, CHR 0x20])"

definition unicodeSpaces :: "string list" where
  "unicodeSpaces =
     [[CHR 0xC2, CHR 0x85], [CHR 0xC2, CHR 0xA0], [CHR 0xE1, CHR 0x9A, CHR 0x80],
      [CHR 0xE2, CHR 0x80, CHR 0x80], [CHR 0xE2, CHR 0x80, CHR 0x81],
      [CHR 0xE2, CHR 0x80, CHR 0x82], [CHR 0xE2, CHR 0x80, CHR 0x83],
      [CHR 0xE2, CHR 0x80, CHR 0x84], [CHR 0xE2, CHR 0x80, CHR 0x85],
      [CHR 0xE2, CHR 0x80, CHR 0x86], [CHR 0xE2, CHR 0x80, CHR 0x87],
      [CHR 0xE2, CHR 0x80, CHR 0x88], [CHR 0xE2, CHR 0x80, CHR 0x89],
      [CHR 0xE2, CHR 0x80, CHR 0x8A], [CHR 0xE2, CHR 0x80, CHR 0xA8],
      [CHR 0xE2, CHR 0x80, CHR 0xA9], [CHR 0xE2, CHR 0x80, CHR 0xAF],
      [CHR 0xE2, CHR 0x81, CHR 0x9F], [CHR 0xE3, CHR 0x80, CHR 0x80]]"

text \<open>
  \<open>spaceWidth encs s\<close> is the number of bytes of the white-space rune at the
  front of \<open>s\<close>, or 0 when \<open>s\<close> does not start with one; \<open>encs\<close> lists the
  multi-byte encodings to look for.
\<close>

definition spaceWidth :: "string list \<Rightarrow> string \<Rightarrow> nat" where
  "spaceWidth encs s =
     (case s of
        [] \<Rightarrow> 0
      | c # _ \<Rightarrow>
          if asciiSpace c then 1
          else (case filter (\<lambda>enc. take (length enc) s = enc) encs of
                  [] \<Rightarrow> 0
                | enc # _ \<Rightarrow> length enc))"

lemma spaceWidth_drop:
  "0 < spaceWidth encs s \<Longrightarrow> length s - spaceWidth encs s < length s"
  by (cases s) (simp_all add: spaceWidth_def)

function trimLeft :: "string list \<Rightarrow> string \<Rightarrow> string" where
  "trimLeft encs s =
     (if spaceWidth encs s = 0 then s else trimLeft encs (drop (spaceWidth encs s) s))"
  by pat_completeness auto
termination
  by (relation "measure (\<lambda>(encs, s). length s)") (simp_all add: spaceWidth_drop)

declare trimLeft.simps [simp del]

text \<open>
  Trimming the end is trimming the front of the reversed string, looking for the
  reversed encodings: the last rune of a string is a white-space rune exactly when the
  string ends with that rune's encoding.
\<close>

definition TrimSpace :: "string \<Rightarrow> string" where
  "TrimSpace s =
     rev (trimLeft (map rev unicodeSpaces) (rev (trimLeft unicodeSpaces s)))"

subsection \<open>strings.Split on the separator of a term\<close>

fun strings_Split :: "string \<Rightarrow> string list" where
  "strings_Split [] = [[]]"
| "strings_Split (c # cs) =
     (if c = CHR ''|'' then [] # strings_Split cs
      else (case strings_Split cs of
              [] \<Rightarrow> [[c]]
            | x # xs \<Rightarrow> (c # x) # xs))"

subsection \<open>hex.EncodeToString of an MD5 digest\<close>

text \<open>
  \<open>md5.Sum\<close> returns a \<open>[16]byte\<close>; the digest is a 128-bit word here, its first
  byte the most significant one. The hash function itself is a parameter of the model.
\<close>

definition hextable :: "nat \<Rightarrow> char" where
  "hextable n = ''0123456789abcdef'' ! n"

definition digestBytes :: "128 word \<Rightarrow> 8 word list" where
  "digestBytes h = map (\<lambda>i. ucast (drop_bit (8 * (15 - i)) h)) [0..<16]"

definition EncodeToString :: "8 word list \<Rightarrow> string" where
  "EncodeToString src = concat (map (\<lambda>v. [hextable (unat v div 16), hextable (unat v mod 16)]) src)"

subsection \<open>The regular expression of search terms\<close>

text \<open>
  \<open>reSearchTerms\<close> is one capture group holding one or more repetitions of
  "word characters, a bar, value characters", followed by an optional slash outside the
  group. A word character (class w) is one of \<open>[0-9A-Za-z_]\<close>; a value character is
  a word character, a white-space character of class s (tab, line feed, form feed,
  carriage return, space) or one of the three characters greater-than, less-than and
  equals. Both classes are ASCII only in Go.

  A match that starts at a given position takes the longest run of word characters
  there (the next character must be the bar, which is no word character), the bar, and
  the longest run of value characters (both runs non-empty). After the longest run of
  value characters the next character is no word character, so the repetition of the
  group cannot go round again, and the leftmost-first match ends there, followed by one
  slash when there is one. Group 1 is the match without that slash.
  \<open>FindAllStringSubmatch\<close> takes the leftmost match, then goes on from its end;
  \<open>reSearchTerms s\<close> below is the list of the groups 1 of all matches in \<open>s\<close>,
  which is all that the program reads of the result.
\<close>

definition isWordChar :: "char \<Rightarrow> bool" where
  "isWordChar c = (isAlnum c \<or> c = CHR ''_'')"

definition isValueChar :: "char \<Rightarrow> bool" where
  "isValueChar c =
     (isWordChar c \<or> c \<in> set [CHR 0x09, CHR 0x0A, CHR 0x0C, CHR 0x0D, CHR 0x20]
      \<or> c = CHR ''>'' \<or> c = CHR ''<'' \<or> c = CHR ''='')"

text \<open>
  \<open>matchAt s\<close>: the match of \<open>reSearchTerms\<close> at the very start of \<open>s\<close>, as
  group 1 and what is left of \<open>s\<close> behind the match.
\<close>

definition matchAt :: "string \<Rightarrow> (string \<times> string) option" where
  "matchAt s =
     (let w = takeWhile isWordChar s; r = dropWhile isWordChar s in
      if w = [] then None
      else (case r of
              [] \<Rightarrow> None
            | b # r1 \<Rightarrow>
                if b = CHR ''|'' then
                  (let v = takeWhile isValueChar r1; r2 = dropWhile isValueChar r1 in
                   if v = [] then None
                   else Some (w @ [CHR ''|''] @ v,
                              (case r2 of
                                 [] \<Rightarrow> []
                               | d # r3 \<Rightarrow> if d = CHR ''/'' then r3 else r2)))
                else None))"

lemma matchAt_shorter: "matchAt s = Some (g, rest) \<Longrightarrow> length rest < length s"
proof -
  assume m: "matchAt s = Some (g, rest)"
  obtain r1 where r: "dropWhile isWordChar s = CHR ''|'' # r1"
    using m by (auto simp add: matchAt_def Let_def split: if_splits list.splits)
  have "length (dropWhile isWordChar s) \<le> length s"
    by (rule length_dropWhile_le)
  with r have c: "length r1 < length s" by simp
  have d: "length (dropWhile isValueChar r1) \<le> length r1"
    by (rule length_dropWhile_le)
  have "length rest \<le> length (dropWhile isValueChar r1)"
    using m r by (auto simp add: matchAt_def Let_def split: if_splits list.splits)
  with c d show ?thesis by simp
qed

function reSearchTerms :: "string \<Rightarrow> string list" where
  "reSearchTerms [] = []"
| "reSearchTerms (c # cs) =
     (case matchAt (c # cs) of
        None \<Rightarrow> reSearchTerms cs
      | Some (g, rest) \<Rightarrow> g # reSearchTerms rest)"
  by pat_completeness auto
termination
  by (relation "measure length") (auto dest: matchAt_shorter)

declare reSearchTerms.simps [simp del]

section \<open>The data of the program\<close>

record SearchTerm =
  Key :: string
  Val :: string

type_synonym row = "string list"

text \<open>
  \<open>log.Fatal\<close> writes its message and ends the process; an index out of range is
  a run-time panic. Both end the run, and both are results of the model.
\<close>

datatype failure = Fatal string | Panic string

text \<open>
  The remote site and the HTML library are the environment. A loaded page is what
  the two XPath queries of \<open>queryBazaar\<close> find in it: the table rows, and for each
  row the inner texts of its cells; each query may also return an error, and so may the
  load. The network is asked with the number of loads made so far and the URL, so the
  same URL may be answered differently each time.
\<close>

datatype fetch_error = LoadURLError | QueryAllError

datatype node = Node "fetch_error + string list"

datatype document = Document "fetch_error + node list"

type_synonym network = "nat \<Rightarrow> string \<Rightarrow> fetch_error + document"

text \<open>
  The configuration file as \<open>ini.Load\<close> and the section and key lookups present
  it. \<open>General\<close> is \<open>None\<close> when the section is missing, \<open>Some None\<close> when it
  has no poll-delay key, and otherwise holds what \<open>Int()\<close> returns for the key: the
  integer and whether an error came with it. The other two sections are the lists of
  their keys (name and value), in file order.
\<close>

record config =
  General :: "(int \<times> bool) option option"
  Monitor :: "(string \<times> string) list option"
  Queries :: "(string \<times> string) list option"

datatype level = InfoLevel | WarnLevel | ErrorLevel

text \<open>
  The state is the package-level variables, the two result files and what the
  process has done to the outside. \<open>searchResultsFile\<close> and \<open>monitorResultsFile\<close>
  are the contents of the files of these names, as the records written to them.
  \<open>monitorQueries\<close> is a Go map; it is kept as a list with one entry per key, whose
  order stands for the order in which \<open>range\<close> happens to visit the map.
  \<open>monitorPollDelay\<close> is a Go \<open>int\<close> that the program only assigns and compares,
  an integer here.
  \<open>fetches\<close> lists the page loads made so far (query ID and URL), \<open>logs\<close> the
  messages logged at level info and above, each with its level and the fixed part of
  its text (debug messages are left out).
\<close>

record state =
  searchQueries :: "string \<rightharpoonup> string"
  monitorQueries :: "(string \<times> string) list"
  monitorPollDelay :: int
  searchResultsFile :: "row list"
  monitorResultsFile :: "row list"
  fetches :: "(string \<times> string) list"
  logs :: "(level \<times> string) list"

definition logmsg :: "level \<Rightarrow> string \<Rightarrow> state \<Rightarrow> state" where
  "logmsg l m st = st\<lparr>logs := logs st @ [(l, m)]\<rparr>"

section \<open>The dedup caches\<close>

definition getSearchQuery :: "string \<Rightarrow> state \<Rightarrow> string" where
  "getSearchQuery queryID st =
     (case searchQueries st queryID of Some result \<Rightarrow> result | None \<Rightarrow> [])"

definition updateSearchQueries :: "string \<Rightarrow> string \<Rightarrow> state \<Rightarrow> state" where
  "updateSearchQueries queryID search st =
     st\<lparr>searchQueries := (searchQueries st)(queryID \<mapsto> search)\<rparr>"

fun mapAssign :: "string \<Rightarrow> string \<Rightarrow> (string \<times> string) list \<Rightarrow> (string \<times> string) list" where
  "mapAssign k v [] = [(k, v)]"
| "mapAssign k v (p # ps) = (if fst p = k then (k, v) # ps else p # mapAssign k v ps)"

definition updateMonitorQuery :: "string \<Rightarrow> string \<Rightarrow> state \<Rightarrow> state" where
  "updateMonitorQuery queryID search st =
     st\<lparr>monitorQueries := mapAssign queryID search (monitorQueries st)\<rparr>"

definition deleteMonitorQueries :: "state \<Rightarrow> state" where
  "deleteMonitorQueries st = st\<lparr>monitorQueries := []\<rparr>"

section \<open>The query translator\<close>

definition lazUrl0 :: string where
  "lazUrl0 = ''https://www.lazaruseq.com/Magelo/index.php?page=bazaar''"

text \<open>The \<open>switch\<close> of \<open>buildURL\<close>: \<open>None\<close> is its \<open>default: continue\<close>.\<close>

definition paramPrefix :: "string \<Rightarrow> string option" where
  "paramPrefix k =
     (if k = ''Name'' then Some ''&item=''
      else if k = ''Class'' then Some ''&class=''
      else if k = ''Race'' then Some ''&race=''
      else if k = ''Stat'' then Some ''&stat=''
      else if k = ''Slot'' then Some ''&slot=''
      else if k = ''Aug'' then Some ''&aug_type=''
      else if k = ''Type'' then Some ''&type=''
      else if k = ''PriceMin'' then Some ''&pricemin=''
      else if k = ''PriceMax'' then Some ''&pricemax=''
      else if k = ''Direction'' then Some ''&direction=''
      else None)"

fun buildURL_loop :: "string \<Rightarrow> SearchTerm list \<Rightarrow> string" where
  "buildURL_loop lazUrl [] = lazUrl"
| "buildURL_loop lazUrl (t # searchTerms) =
     (case paramPrefix (Key t) of
        None \<Rightarrow> buildURL_loop lazUrl searchTerms
      | Some p \<Rightarrow> buildURL_loop ((lazUrl @ p) @ QueryEscape (Val t)) searchTerms)"

definition buildURL :: "SearchTerm list \<Rightarrow> string" where
  "buildURL searchTerms = buildURL_loop lazUrl0 searchTerms"

section \<open>The scrape client\<close>

text \<open>The loop of \<open>queryBazaar\<close> over the table rows.\<close>

fun rowsLoop :: "string \<Rightarrow> row list \<Rightarrow> node list \<Rightarrow> fetch_error + row list" where
  "rowsLoop queryID rows [] = Inr rows"
| "rowsLoop queryID rows (Node tds # list) =
     (case tds of
        Inl err \<Rightarrow> Inl err
      | Inr texts \<Rightarrow>
          (let results = [queryID] @ map TrimSpace texts in
           if length results > 1 then rowsLoop queryID (rows @ [results]) list
           else rowsLoop queryID rows list))"

text \<open>
  What \<open>queryBazaar\<close> makes of a loaded page. Where the Go function returns an
  error its callers drop the rows that come with it, so an error is the whole result
  here.
\<close>

definition scrape :: "string \<Rightarrow> document \<Rightarrow> fetch_error + row list" where
  "scrape queryID doc =
     (case doc of
        Document q \<Rightarrow>
          (case q of
             Inl err \<Rightarrow> Inl err
           | Inr list \<Rightarrow> rowsLoop queryID [] list))"

definition queryBazaar ::
  "network \<Rightarrow> string \<Rightarrow> SearchTerm list \<Rightarrow> state \<Rightarrow> (fetch_error + row list) \<times> state" where
  "queryBazaar net queryID searchTerms st =
     (let url = buildURL searchTerms;
          st1 = st\<lparr>fetches := fetches st @ [(queryID, url)]\<rparr>
      in case net (length (fetches st)) url of
           Inl err \<Rightarrow> (Inl err, logmsg ErrorLevel ''Error loading URL'' st1)
         | Inr doc \<Rightarrow>
             (case scrape queryID doc of
                Inl err \<Rightarrow>
                  (Inl err, logmsg ErrorLevel ''Error querying HTTP response body HTML'' st1)
              | Inr rows \<Rightarrow> (Inr rows, st1)))"

text \<open>
  The result of the query that \<open>queryBazaar\<close> makes in state \<open>st\<close>, without the
  change of the state.
\<close>

definition queryResult ::
  "network \<Rightarrow> string \<Rightarrow> SearchTerm list \<Rightarrow> state \<Rightarrow> fetch_error + row list" where
  "queryResult net queryID searchTerms st =
     (case net (length (fetches st)) (buildURL searchTerms) of
        Inl err \<Rightarrow> Inl err
      | Inr doc \<Rightarrow> scrape queryID doc)"

section \<open>The result sink\<close>

text \<open>
  A result file is modelled by the records that \<open>csv.Writer\<close> has written to it since
  it was last emptied, in order. \<open>main\<close> empties both files before it writes
  anything, and every later write goes through \<open>csv.Writer\<close>, so this is all a file
  holds for as long as the process lives. Opening, writing and closing the files is taken
  to succeed: where the program ends with \<open>log.Fatal\<close> on an error of the operating
  system the model has no branch. What \<open>csv.Reader\<close> makes of a file so written is
  modelled below.
\<close>

definition csvHeader :: row where
  "csvHeader = [''QueryID'', ''Item'', ''Price'', ''Seller'']"

definition cleanSearchCSV :: "state \<Rightarrow> state" where
  "cleanSearchCSV st = st\<lparr>searchResultsFile := []\<rparr>"

definition cleanMonitorCSV :: "state \<Rightarrow> state" where
  "cleanMonitorCSV st = st\<lparr>monitorResultsFile := []\<rparr>"

definition writeSearchCSVHeader :: "state \<Rightarrow> state" where
  "writeSearchCSVHeader st = st\<lparr>searchResultsFile := searchResultsFile st @ [csvHeader]\<rparr>"

definition writeMonitorCSVHeader :: "state \<Rightarrow> state" where
  "writeMonitorCSVHeader st = st\<lparr>monitorResultsFile := monitorResultsFile st @ [csvHeader]\<rparr>"

definition writeSearchCSV :: "row list \<Rightarrow> state \<Rightarrow> state" where
  "writeSearchCSV dataRows st = st\<lparr>searchResultsFile := searchResultsFile st @ dataRows\<rparr>"

definition writeMonitorCSV :: "row list \<Rightarrow> state \<Rightarrow> state" where
  "writeMonitorCSV dataRows st = st\<lparr>monitorResultsFile := monitorResultsFile st @ dataRows\<rparr>"

text \<open>
  Reading back what \<open>csv.Writer\<close> wrote. The writer puts a field between quotes when
  it holds a comma, a quote, a carriage return or a line feed, when it starts with white
  space, or when it is a backslash followed by a full stop; it doubles the quotes inside,
  and it ends every record with a line feed. \<open>csv.Reader\<close> with its default settings
  undoes this, with two exceptions. It reads its input line by line and replaces a
  carriage return and line feed at the end of a line by the line feed alone, also inside
  a quoted field: a field comes back without the carriage returns that stand directly
  before a line feed (\<open>readField\<close>). And it skips empty lines: a record without fields,
  or with one empty field, was written as an empty line and does not come back
  (\<open>emptyLine\<close>).
\<close>

fun readField :: "string \<Rightarrow> string" where
  "readField (c # d # s) =
     (if c = CHR 0x0D \<and> d = CHR 0x0A then CHR 0x0A # readField s else c # readField (d # s))"
| "readField s = s"

definition emptyLine :: "row \<Rightarrow> bool" where
  "emptyLine r = (r = [] \<or> r = [[]])"

definition readRecords :: "row list \<Rightarrow> row list" where
  "readRecords file = map (map readField) (filter (\<lambda>r. \<not> emptyLine r) file)"

text \<open>
  \<open>csv.Reader.ReadAll\<close> with the reader's default settings: the first record fixes
  the number of fields, and a later record with another number of fields is an error,
  which \<open>deleteFromMonitorCSV\<close> makes fatal.
\<close>

definition csvReadAll :: "row list \<Rightarrow> failure + row list" where
  "csvReadAll file =
     (case readRecords file of
        [] \<Rightarrow> Inr []
      | first # _ \<Rightarrow>
          if list_all (\<lambda>r. length r = length first) (readRecords file)
          then Inr (readRecords file)
          else Inl (Fatal ''Error reading monitor results file''))"

text \<open>The loop of \<open>deleteFromMonitorCSV\<close> that writes back the rows it keeps.\<close>

fun keepRows :: "string \<Rightarrow> row list \<Rightarrow> row list \<Rightarrow> failure + row list" where
  "keepRows queryID out [] = Inr out"
| "keepRows queryID out (r # rows) =
     (case r of
        [] \<Rightarrow> Inl (Panic ''index out of range'')
      | r0 # _ \<Rightarrow>
          if r0 \<noteq> queryID then keepRows queryID (out @ [r]) rows
          else keepRows queryID out rows)"

definition deleteFromMonitorCSV :: "string \<Rightarrow> state \<Rightarrow> failure + state" where
  "deleteFromMonitorCSV queryID st =
     (case csvReadAll (monitorResultsFile st) of
        Inl e \<Rightarrow> Inl e
      | Inr rows \<Rightarrow>
          (case keepRows queryID [] rows of
             Inl e \<Rightarrow> Inl e
           | Inr out \<Rightarrow> Inr (st\<lparr>monitorResultsFile := out\<rparr>)))"

section \<open>Search requests\<close>

text \<open>
  The inner loop of \<open>processSearchQueries\<close>: every match is split at the bar and
  its first two parts become a term. Reading a part that is not there panics.
\<close>

fun searchTermsLoop :: "SearchTerm list \<Rightarrow> string list \<Rightarrow> failure + SearchTerm list" where
  "searchTermsLoop searchTerms [] = Inr searchTerms"
| "searchTermsLoop searchTerms (g # re) =
     (case strings_Split g of
        t0 # t1 # _ \<Rightarrow> searchTermsLoop (searchTerms @ [\<lparr>Key = t0, Val = t1\<rparr>]) re
      | _ \<Rightarrow> Inl (Panic ''index out of range''))"

text \<open>The body of the loop of \<open>processSearchQueries\<close>, for one key of the section.\<close>

definition processSearchQuery :: "network \<Rightarrow> string \<times> string \<Rightarrow> state \<Rightarrow> failure + state" where
  "processSearchQuery net key st =
     (if getSearchQuery (fst key) st \<noteq> [] then Inr st
      else
        (let st1 = updateSearchQueries (fst key) (snd key) st in
         case searchTermsLoop [] (reSearchTerms (snd key)) of
           Inl e \<Rightarrow> Inl e
         | Inr searchTerms \<Rightarrow>
             (case queryBazaar net (fst key) searchTerms st1 of
                (Inl err, st2) \<Rightarrow> Inr (logmsg ErrorLevel ''Error querying Bazaar'' st2)
              | (Inr rows, st2) \<Rightarrow>
                  Inr (logmsg InfoLevel ''Wrote rows to search results CSV''
                         (writeSearchCSV rows st2)))))"

fun processSearchQueries :: "network \<Rightarrow> (string \<times> string) list \<Rightarrow> state \<Rightarrow> failure + state" where
  "processSearchQueries net [] st = Inr st"
| "processSearchQueries net (key # keys) st =
     (case processSearchQuery net key st of
        Inl e \<Rightarrow> Inl e
      | Inr st' \<Rightarrow> processSearchQueries net keys st')"

section \<open>Monitor items\<close>

text \<open>
  The inner loop of \<open>processMonitorItems\<close>. \<open>searchTerm\<close> is the one variable
  that the loop keeps changing and appending; an unknown operator is logged and the
  loop goes on to the next match without appending.
\<close>

fun monitorTermsLoop ::
  "SearchTerm \<Rightarrow> SearchTerm list \<Rightarrow> string list \<Rightarrow> state \<Rightarrow> failure + (SearchTerm list \<times> state)" where
  "monitorTermsLoop searchTerm searchTerms [] st = Inr (searchTerms, st)"
| "monitorTermsLoop searchTerm searchTerms (g # re) st =
     (case strings_Split g of
        t0 # t1 # _ \<Rightarrow>
          if t0 = ''Price'' then
            monitorTermsLoop (searchTerm\<lparr>Val := t1\<rparr>) (searchTerms @ [searchTerm\<lparr>Val := t1\<rparr>]) re st
          else if t0 = ''Compare'' then
            (if t1 = ''<'' \<or> t1 = ''<='' then
               monitorTermsLoop (searchTerm\<lparr>Key := ''PriceMax''\<rparr>)
                 (searchTerms @ [searchTerm\<lparr>Key := ''PriceMax''\<rparr>]) re st
             else if t1 = ''>'' \<or> t1 = ''>='' then
               monitorTermsLoop (searchTerm\<lparr>Key := ''PriceMin''\<rparr>)
                 (searchTerms @ [searchTerm\<lparr>Key := ''PriceMin''\<rparr>]) re st
             else
               monitorTermsLoop searchTerm searchTerms re
                 (logmsg WarnLevel ''Unknown compare operator'' st))
          else monitorTermsLoop searchTerm (searchTerms @ [searchTerm]) re st
      | _ \<Rightarrow> Inl (Panic ''index out of range''))"

definition monitorTerms :: "string \<Rightarrow> string \<Rightarrow> state \<Rightarrow> failure + (SearchTerm list \<times> state)" where
  "monitorTerms key val st =
     monitorTermsLoop \<lparr>Key = [], Val = []\<rparr> [\<lparr>Key = ''Name'', Val = key\<rparr>] (reSearchTerms val) st"

definition hexHash :: "(string \<Rightarrow> 128 word) \<Rightarrow> string \<Rightarrow> string" where
  "hexHash md5Sum key = EncodeToString (digestBytes (md5Sum key))"

text \<open>The body of the loop of \<open>processMonitorItems\<close>, for one entry of the map.\<close>

definition processMonitorItem ::
  "network \<Rightarrow> (string \<Rightarrow> 128 word) \<Rightarrow> string \<times> string \<Rightarrow> state \<Rightarrow> failure + state" where
  "processMonitorItem net md5Sum item st =
     (case monitorTerms (fst item) (snd item) st of
        Inl e \<Rightarrow> Inl e
      | Inr (searchTerms, st1) \<Rightarrow>
          (case deleteFromMonitorCSV (hexHash md5Sum (fst item)) st1 of
             Inl e \<Rightarrow> Inl e
           | Inr st2 \<Rightarrow>
               (case queryBazaar net (hexHash md5Sum (fst item)) searchTerms st2 of
                  (Inl err, st3) \<Rightarrow> Inr (logmsg ErrorLevel ''Error querying Bazaar'' st3)
                | (Inr rows, st3) \<Rightarrow>
                    Inr (logmsg InfoLevel ''Wrote rows to monitor results CSV''
                           (writeMonitorCSV rows st3)))))"

fun monitorItemsLoop ::
  "network \<Rightarrow> (string \<Rightarrow> 128 word) \<Rightarrow> (string \<times> string) list \<Rightarrow> state \<Rightarrow> failure + state" where
  "monitorItemsLoop net md5Sum [] st = Inr st"
| "monitorItemsLoop net md5Sum (item # items) st =
     (case processMonitorItem net md5Sum item st of
        Inl e \<Rightarrow> Inl e
      | Inr st' \<Rightarrow> monitorItemsLoop net md5Sum items st')"

definition processMonitorItems :: "network \<Rightarrow> (string \<Rightarrow> 128 word) \<Rightarrow> state \<Rightarrow> failure + state" where
  "processMonitorItems net md5Sum st = monitorItemsLoop net md5Sum (monitorQueries st) st"

section \<open>Reloading the configuration\<close>

text \<open>
  The second half of \<open>processMonitorFile\<close>, from the lookup of the Monitor section
  on: it registers the monitor items anew and runs the search requests.
\<close>

definition registerAndSearch :: "network \<Rightarrow> config \<Rightarrow> state \<Rightarrow> failure + state" where
  "registerAndSearch net cfg st =
     (case Monitor cfg of
        None \<Rightarrow> Inr (logmsg InfoLevel ''Queries section does not exist or is empty'' st)
      | Some monitorKeys \<Rightarrow>
          (let st1 = fold (\<lambda>key. updateMonitorQuery (fst key) (snd key)) monitorKeys
                       (deleteMonitorQueries st)
           in case Queries cfg of
                None \<Rightarrow> Inr (logmsg InfoLevel ''Queries section does not exist or is empty'' st1)
              | Some searchKeys \<Rightarrow> processSearchQueries net searchKeys st1))"

text \<open>
  \<open>processMonitorFile\<close>; \<open>loaded\<close> is the result of \<open>ini.Load\<close>, \<open>None\<close> when it
  returns an error. The result of \<open>Int()\<close> is assigned to \<open>monitorPollDelay\<close> before
  its error is looked at.
\<close>

definition processMonitorFile :: "network \<Rightarrow> config option \<Rightarrow> state \<Rightarrow> failure + state" where
  "processMonitorFile net loaded st =
     (case loaded of
        None \<Rightarrow> Inl (Fatal ''Fail to read file'')
      | Some cfg \<Rightarrow>
          (case General cfg of
             None \<Rightarrow> Inr (logmsg InfoLevel ''General section does not exist or is empty'' st)
           | Some None \<Rightarrow>
               registerAndSearch net cfg
                 (logmsg WarnLevel ''Monitor Poll Delay setting does not exist or is empty'' st)
           | Some (Some (v, err)) \<Rightarrow>
               (let st1 = st\<lparr>monitorPollDelay := v\<rparr> in
                if err then
                  Inr (logmsg InfoLevel ''Monitor Poll Delay setting is not an integer'' st1)
                else if monitorPollDelay st1 < 60 then
                  registerAndSearch net cfg
                    ((logmsg WarnLevel ''Monitor Poll Delay cannot be less than 60 seconds. Setting to 60 seconds'' st1)
                       \<lparr>monitorPollDelay := 60\<rparr>)
                else registerAndSearch net cfg st1)))"

section \<open>Start of the process and its run\<close>

text \<open>
  The variables as the program text initialises them; the two files hold whatever
  an earlier run left in them.
\<close>

definition initial :: "row list \<Rightarrow> row list \<Rightarrow> state" where
  "initial searchFile monitorFile =
     \<lparr>searchQueries = Map.empty, monitorQueries = [], monitorPollDelay = 600,
      searchResultsFile = searchFile, monitorResultsFile = monitorFile,
      fetches = [], logs = []\<rparr>"

text \<open>
  What \<open>main\<close> does to the state before it starts the watcher and the poll loop:
  it empties both files, writes both headers and processes the configuration file for
  the first time.
\<close>

definition startup :: "network \<Rightarrow> config option \<Rightarrow> state \<Rightarrow> failure + state" where
  "startup net loaded st =
     processMonitorFile net loaded
       (writeMonitorCSVHeader (writeSearchCSVHeader (cleanMonitorCSV (cleanSearchCSV st))))"

text \<open>
  After the start the process reacts to two kinds of event for as long as it lives: a
  write to the configuration file, which reloads it, and a tick of the poll timer,
  which runs one pass over the monitor items. The two goroutines are modelled one
  event at a time. The pass over the monitor items holds the lock of the monitor map
  from its first item to its last; the search cache and the search file are touched
  by reloads only, the monitor file by polls only (after the start).
\<close>

datatype event = Reload "config option" | Poll

fun step :: "network \<Rightarrow> (string \<Rightarrow> 128 word) \<Rightarrow> event \<Rightarrow> state \<Rightarrow> failure + state" where
  "step net md5Sum (Reload loaded) st = processMonitorFile net loaded st"
| "step net md5Sum Poll st = processMonitorItems net md5Sum st"

fun run :: "network \<Rightarrow> (string \<Rightarrow> 128 word) \<Rightarrow> event list \<Rightarrow> state \<Rightarrow> failure + state" where
  "run net md5Sum [] st = Inr st"
| "run net md5Sum (e # es) st =
     (case step net md5Sum e st of
        Inl f \<Rightarrow> Inl f
      | Inr st' \<Rightarrow> run net md5Sum es st')"

section \<open>Notions and examples used to state the properties\<close>

subsection \<open>The contract of the translator\<close>

text \<open>
  The keys for which the \<open>switch\<close> of \<open>buildURL\<close> has a case, and what one
  term adds to the URL according to the contract of the translator: the prefix of its
  key followed by the escaped value, or nothing.
\<close>

definition recognizedKeys :: "string list" where
  "recognizedKeys =
     [''Name'', ''Class'', ''Race'', ''Stat'', ''Slot'', ''Aug'', ''Type'', ''PriceMin'',
      ''PriceMax'', ''Direction'']"

definition termContribution :: "SearchTerm \<Rightarrow> string" where
  "termContribution t =
     (case paramPrefix (Key t) of None \<Rightarrow> [] | Some p \<Rightarrow> p @ QueryEscape (Val t))"

subsection \<open>Rows of a request\<close>

text \<open>
  A row belongs to a query ID when its first column is that ID. \<open>rowsFor\<close> are
  the rows of a file that belong to an ID, \<open>otherRows\<close> the rest, both in file order.
\<close>

definition hasID :: "string \<Rightarrow> row \<Rightarrow> bool" where
  "hasID queryID r = (case r of [] \<Rightarrow> False | r0 # cells \<Rightarrow> r0 = queryID)"

definition rowsFor :: "string \<Rightarrow> row list \<Rightarrow> row list" where
  "rowsFor queryID file = filter (hasID queryID) file"

definition otherRows :: "string \<Rightarrow> row list \<Rightarrow> row list" where
  "otherRows queryID file = filter (\<lambda>r. \<not> hasID queryID r) file"

text \<open>
  A field holds a carriage return directly before a line feed. A row reads back as it
  was written when it is not an empty line and no field of it holds one.
\<close>

fun hasCRLF :: "string \<Rightarrow> bool" where
  "hasCRLF (c # d # s) = ((c = CHR 0x0D \<and> d = CHR 0x0A) \<or> hasCRLF (d # s))"
| "hasCRLF s = False"

definition readsBack :: "row \<Rightarrow> bool" where
  "readsBack r = (\<not> emptyLine r \<and> list_all (\<lambda>c. \<not> hasCRLF c) r)"

text \<open>The rows a query adds to a result file: its rows, or none when it fails.\<close>

definition rowsOrNone :: "fetch_error + row list \<Rightarrow> row list" where
  "rowsOrNone res = (case res of Inl err \<Rightarrow> [] | Inr rows \<Rightarrow> rows)"

text \<open>
  The rows that one load brings: \<open>n\<close> is the number of the load (how many loads were
  made before it) and \<open>f\<close> its entry in the list of loads, the ID and the URL. They
  are the rows scraped from the page with the ID in front, and none when the load or
  the scrape fails. \<open>loadsRows\<close> are the rows of consecutive loads, one after another.
\<close>

definition loadRows :: "network \<Rightarrow> nat \<Rightarrow> string \<times> string \<Rightarrow> row list" where
  "loadRows net n f =
     (case net n (snd f) of
        Inl err \<Rightarrow> []
      | Inr doc \<Rightarrow> rowsOrNone (scrape (fst f) doc))"

fun loadsRows :: "network \<Rightarrow> nat \<Rightarrow> (string \<times> string) list \<Rightarrow> row list" where
  "loadsRows net n [] = []"
| "loadsRows net n (f # F) = loadRows net n f @ loadsRows net (Suc n) F"

text \<open>Rows in groups, one group for each load, every row of a group with the ID of its load.\<close>

definition groupedBy :: "(string \<times> string) list \<Rightarrow> row list list \<Rightarrow> bool" where
  "groupedBy F Rs = list_all2 (\<lambda>f rows. list_all (hasID (fst f)) rows) F Rs"

subsection \<open>Bounds of a monitor item\<close>




subsection \<open>Loads and requests of a run\<close>

text \<open>
  The page loads that a step of the process adds to the list of loads, and the loads
  made by the reloads of a run: those of its Reload events, up to the failure that ends
  the process if there is one.
\<close>

definition newFetches :: "state \<Rightarrow> state \<Rightarrow> (string \<times> string) list" where
  "newFetches st st' = drop (length (fetches st)) (fetches st')"

fun reloadFetches ::
  "network \<Rightarrow> (string \<Rightarrow> 128 word) \<Rightarrow> event list \<Rightarrow> state \<Rightarrow> (string \<times> string) list" where
  "reloadFetches net md5Sum [] st = []"
| "reloadFetches net md5Sum (e # es) st =
     (case step net md5Sum e st of
        Inl f \<Rightarrow> []
      | Inr st' \<Rightarrow>
          (case e of Reload loaded \<Rightarrow> newFetches st st' | Poll \<Rightarrow> [])
            @ reloadFetches net md5Sum es st')"

text \<open>The keys of the Queries section of the configuration that a reload is given.\<close>

definition searchKeys :: "config option \<Rightarrow> (string \<times> string) list" where
  "searchKeys loaded =
     (case loaded of
        None \<Rightarrow> []
      | Some cfg \<Rightarrow> (case Queries cfg of None \<Rightarrow> [] | Some keys \<Rightarrow> keys))"


text \<open>
  No request of a reload has the given ID together with empty raw content.
\<close>

definition nonemptyFor :: "string \<Rightarrow> (string \<times> string) list \<Rightarrow> bool" where
  "nonemptyFor i keys = list_all (\<lambda>key. fst key \<noteq> i \<or> snd key \<noteq> []) keys"


text \<open>What the search loop does to the state, with the loads and the rows it adds.\<close>

definition searchEffect ::
  "(string \<times> string) list \<Rightarrow> state \<Rightarrow> state \<Rightarrow> (string \<times> string) list \<Rightarrow> row list list \<Rightarrow> bool" where
  "searchEffect keys st st' F Rs =
     (fetches st' = fetches st @ F
      \<and> searchResultsFile st' = searchResultsFile st @ concat Rs
      \<and> groupedBy F Rs
      \<and> subseq (map fst F) (map fst keys)
      \<and> list_all (\<lambda>f. getSearchQuery (fst f) st = []) F
      \<and> (\<forall>i. getSearchQuery i st \<noteq> [] \<longrightarrow> searchQueries st' i = searchQueries st i)
      \<and> (list_all (\<lambda>key. snd key \<noteq> []) keys \<longrightarrow>
            distinct (map fst F) \<and> list_all (\<lambda>f. getSearchQuery (fst f) st' \<noteq> []) F)
      \<and> (\<forall>i. nonemptyFor i keys \<longrightarrow>
            count_list (map fst F) i \<le> 1
            \<and> (i \<in> set (map fst F) \<longrightarrow> getSearchQuery i st' \<noteq> [])))"

text \<open>
  The load that the search loop makes for a request: the ID of the request with the URL
  of its terms.
\<close>

definition requestLoad :: "string \<times> string \<Rightarrow> string \<times> string" where
  "requestLoad key =
     (fst key,
      buildURL (case searchTermsLoop [] (reSearchTerms (snd key)) of
                  Inl e \<Rightarrow> []
                | Inr searchTerms \<Rightarrow> searchTerms))"

text \<open>
  The requests that a reload hands to the search loop: the keys of the Queries section
  when the reload gets that far, and none when it returns before.
\<close>

definition sectionKeys :: "config \<Rightarrow> (string \<times> string) list" where
  "sectionKeys cfg =
     (case Monitor cfg of
        None \<Rightarrow> []
      | Some monitorKeys \<Rightarrow> (case Queries cfg of None \<Rightarrow> [] | Some keys \<Rightarrow> keys))"

definition reloadKeys :: "config option \<Rightarrow> (string \<times> string) list" where
  "reloadKeys loaded =
     (case loaded of
        None \<Rightarrow> []
      | Some cfg \<Rightarrow>
          (case General cfg of
             None \<Rightarrow> []
           | Some pollDelay \<Rightarrow>
               (case pollDelay of
                  None \<Rightarrow> sectionKeys cfg
                | Some r \<Rightarrow> if snd r then [] else sectionKeys cfg)))"

subsection \<open>Examples\<close>

definition deadNetwork :: network where
  "deadNetwork n url = Inl LoadURLError"

definition pollConfig :: "int \<Rightarrow> bool \<Rightarrow> config" where
  "pollConfig v err = \<lparr>General = Some (Some (v, err)), Monitor = None, Queries = None\<rparr>"

definition swordPage :: document where
  "swordPage =
     Document (Inr [Node (Inr ['' Fabled Earthshaker '', ''70,000'', ''Baelish '']), Node (Inr []),
                    Node (Inr [''Fabled Earthshaker'', '' 75,000'', ''Coinbuddy''])])"

definition swordNetwork :: network where
  "swordNetwork n url = Inr swordPage"

definition flakyNetwork :: network where
  "flakyNetwork n url = (if n = 0 then Inl LoadURLError else Inr swordPage)"

text \<open>
  An example: one monitored item, its MD5 digest, and a monitor file with rows of two
  items; and the same file with a carriage return and a line feed in a cell of the other
  item, as a page cell with the character references for them gives it.
\<close>

definition shardSum :: "string \<Rightarrow> 128 word" where
  "shardSum s = (if s = ''Velium Shard'' then 0x6be2eeb8e151c61af564e62ba369a75c else 0)"

definition shardFile :: "row list" where
  "shardFile =
     [csvHeader,
      [''6be2eeb8e151c61af564e62ba369a75c'', ''Velium Shard'', ''900'', ''Baelish''],
      [''be3be65da7a9764a30ea0141ec7c6591'', ''Fabled Earthshaker'', ''70,000'', ''Coinbuddy'']]"

definition shardState :: state where
  "shardState = (initial [] [])\<lparr>monitorResultsFile := shardFile\<rparr>"

definition crlfFile :: "row list" where
  "crlfFile =
     [csvHeader,
      [''6be2eeb8e151c61af564e62ba369a75c'', ''Velium Shard'', ''900'', ''Baelish''],
      [''be3be65da7a9764a30ea0141ec7c6591'', ''Fabled'' @ [CHR 0x0D, CHR 0x0A] @ ''Earthshaker'',
       ''70,000'', ''Coinbuddy'']]"

definition crlfState :: state where
  "crlfState = (initial [] [])\<lparr>monitorResultsFile := crlfFile\<rparr>"

definition shardNetwork :: network where
  "shardNetwork n url =
     Inr (Document (Inr [Node (Inr [''Velium Shard'', ''850'', ''Coinbuddy''])]))"

definition raggedFile :: "row list" where
  "raggedFile = [csvHeader, [''6be2eeb8e151c61af564e62ba369a75c'', ''Velium Shard'', ''900'']]"

text \<open>Examples of configurations and of a network that fails on its first load only.\<close>

definition queriesConfig :: "(string \<times> string) list \<Rightarrow> config" where
  "queriesConfig keys = \<lparr>General = Some None, Monitor = Some [], Queries = Some keys\<rparr>"

definition earthshakerKeys :: "(string \<times> string) list" where
  "earthshakerKeys =
     [(''q1'', ''Name|Fabled Earthshaker''), (''q2'', ''Name|Fabled Earthshaker/Stat|ac'')]"


definition emptyReloads :: "event list" where
  "emptyReloads =
     [Reload (Some (queriesConfig [(''q1'', [])])), Reload (Some (queriesConfig [(''q1'', [])]))]"

definition failedState :: state where
  "failedState = updateSearchQueries ''q1'' ''Name|Fabled Earthshaker'' (initial [] [])"

definition laterEvents :: "event list" where
  "laterEvents = [Reload (Some (queriesConfig earthshakerKeys)), Poll]"

text \<open>
  An example of a failed query and what follows it: the first load fails, the later
  ones bring the page of another item.
\<close>

definition shardQueued :: state where
  "shardQueued = shardState\<lparr>monitorQueries := [(''Fabled Earthshaker'', [])]\<rparr>"

definition afterFailure :: "event list" where
  "afterFailure = [Poll, Reload (Some (queriesConfig earthshakerKeys))]"

section \<open>Properties of the query translator\<close>

lemma buildURL_loop_concat:
  "buildURL_loop acc ts = acc @ concat (map termContribution ts)"
  by (induction ts arbitrary: acc) (simp_all add: termContribution_def split: option.split)

lemma of_char_less_256: "(of_char c :: nat) < 256"
proof -
  have "(of_char c :: nat) mod 256 = of_char c" by simp
  then show ?thesis by (metis mod_less_divisor zero_less_numeral)
qed

lemma upperhex_in: "n < 16 \<Longrightarrow> upperhex n \<in> set ''0123456789ABCDEF''"
  unfolding upperhex_def by (rule nth_mem) simp

lemma upperhex_not_amp: "n < 16 \<Longrightarrow> upperhex n \<noteq> CHR ''&''"
  using upperhex_in [of n] by auto

lemma amp_shouldEscape: "shouldEscape CHR ''&''"
  by (simp add: shouldEscape_def isAlnum_def between_def)

lemma escapeByte_no_amp: "CHR ''&'' \<notin> set (escapeByte c)"
proof -
  have a: "(of_char c :: nat) div 16 < 16"
    using of_char_less_256 [of c] by (simp add: less_mult_imp_div_less)
  have b: "(of_char c :: nat) mod 16 < 16" by simp
  show ?thesis
    using upperhex_not_amp [OF a] upperhex_not_amp [OF b] amp_shouldEscape
    by (auto simp add: escapeByte_def)
qed

lemma QueryEscape_no_amp: "count_list (QueryEscape v) CHR ''&'' = 0"
  by (induction v) (simp_all add: QueryEscape_def escapeByte_no_amp count_list_0_iff)

lemma paramPrefix_cases:
  "paramPrefix k = None \<and> k \<notin> set recognizedKeys
   \<or> (\<exists>p. paramPrefix k = Some p \<and> k \<in> set recognizedKeys \<and> count_list p CHR ''&'' = 1)"
  by (simp add: paramPrefix_def recognizedKeys_def)

lemma termContribution_amp:
  "count_list (termContribution t) CHR ''&'' = (if Key t \<in> set recognizedKeys then 1 else 0)"
  using paramPrefix_cases [of "Key t"]
  by (auto simp add: termContribution_def QueryEscape_no_amp)

lemma concat_amp:
  "count_list (concat (map termContribution ts)) CHR ''&''
     = length (filter (\<lambda>t. Key t \<in> set recognizedKeys) ts)"
  by (induction ts) (simp_all add: termContribution_amp)

lemma lazUrl0_amp: "count_list lazUrl0 CHR ''&'' = 0"
  by (simp add: lazUrl0_def)

text \<open>
  C3 (as the code has it). The output of the translator is the base URL followed,
  term by term and in input order, by what each term contributes. A term whose key is
  one of the ten keys Name, Class, Race, Stat, Slot, Aug, Type, PriceMin, PriceMax and
  Direction contributes the prefix of that key and the escaped value; a term with any
  other key contributes nothing, and no input makes the translator fail (it is a total
  function). Compare and Price are among the other keys. Each prefix occurs once per
  recognized term: the number of ampersands in the output is the number of terms with a
  recognized key.
\<close>

theorem buildURL_contributions:
  "buildURL searchTerms = lazUrl0 @ concat (map termContribution searchTerms)
   \<and> (\<forall>t. Key t \<in> set recognizedKeys \<longrightarrow>
          (\<exists>p. paramPrefix (Key t) = Some p \<and> termContribution t = p @ QueryEscape (Val t)))
   \<and> (\<forall>t. Key t \<notin> set recognizedKeys \<longrightarrow> termContribution t = [])
   \<and> ''Compare'' \<notin> set recognizedKeys \<and> ''Price'' \<notin> set recognizedKeys
   \<and> count_list (buildURL searchTerms) CHR ''&''
        = length (filter (\<lambda>t. Key t \<in> set recognizedKeys) searchTerms)"
proof -
  have 1: "buildURL searchTerms = lazUrl0 @ concat (map termContribution searchTerms)"
    by (simp add: buildURL_def buildURL_loop_concat)
  have 2: "\<forall>t. Key t \<in> set recognizedKeys \<longrightarrow>
          (\<exists>p. paramPrefix (Key t) = Some p \<and> termContribution t = p @ QueryEscape (Val t))"
  proof (intro allI impI)
    fix t :: SearchTerm assume "Key t \<in> set recognizedKeys"
    with paramPrefix_cases [of "Key t"] obtain p where "paramPrefix (Key t) = Some p" by auto
    then show "\<exists>p. paramPrefix (Key t) = Some p \<and> termContribution t = p @ QueryEscape (Val t)"
      by (simp add: termContribution_def)
  qed
  have 3: "\<forall>t. Key t \<notin> set recognizedKeys \<longrightarrow> termContribution t = []"
  proof (intro allI impI)
    fix t :: SearchTerm assume "Key t \<notin> set recognizedKeys"
    with paramPrefix_cases [of "Key t"] have "paramPrefix (Key t) = None" by auto
    then show "termContribution t = []" by (simp add: termContribution_def)
  qed
  have 4: "''Compare'' \<notin> set recognizedKeys \<and> ''Price'' \<notin> set recognizedKeys"
    by (simp add: recognizedKeys_def)
  have 5: "count_list (buildURL searchTerms) CHR ''&''
        = length (filter (\<lambda>t. Key t \<in> set recognizedKeys) searchTerms)"
    by (simp add: 1 lazUrl0_amp concat_amp)
  from 1 2 3 4 5 show ?thesis by blast
qed

theorem buildURL_contributions_witness:
  "buildURL [\<lparr>Key = ''Name'', Val = ''Fabled Earthshaker''\<rparr>, \<lparr>Key = ''Price'', Val = ''1000''\<rparr>,
             \<lparr>Key = ''Bogus'', Val = ''x''\<rparr>, \<lparr>Key = ''PriceMax'', Val = ''5 & 6''\<rparr>]
     = ''https://www.lazaruseq.com/Magelo/index.php?page=bazaar&item=Fabled+Earthshaker&pricemax=5+%26+6''
   \<and> count_list (buildURL [\<lparr>Key = ''Name'', Val = ''Fabled Earthshaker''\<rparr>,
                           \<lparr>Key = ''Price'', Val = ''1000''\<rparr>, \<lparr>Key = ''Bogus'', Val = ''x''\<rparr>,
                           \<lparr>Key = ''PriceMax'', Val = ''5 & 6''\<rparr>]) CHR ''&'' = 2"
  using buildURL_contributions [of "[\<lparr>Key = ''Name'', Val = ''Fabled Earthshaker''\<rparr>,
     \<lparr>Key = ''Price'', Val = ''1000''\<rparr>, \<lparr>Key = ''Bogus'', Val = ''x''\<rparr>,
     \<lparr>Key = ''PriceMax'', Val = ''5 & 6''\<rparr>]"]
  by (simp add: recognizedKeys_def termContribution_def paramPrefix_def lazUrl0_def QueryEscape_def
      escapeByte_def shouldEscape_def isAlnum_def between_def upperhex_def)

text \<open>
  C3 as the specification words it counts Compare and Price as recognized keys. A
  term with one of these keys adds nothing to the URL.
\<close>

theorem buildURL_price_compare_counterexample:
  "buildURL [\<lparr>Key = ''Price'', Val = ''1000''\<rparr>] = lazUrl0
   \<and> buildURL [\<lparr>Key = ''Compare'', Val = ''<''\<rparr>] = lazUrl0"
  by (simp add: buildURL_def paramPrefix_def)

section \<open>Properties of term strings\<close>

lemma bar_not_word: "\<not> isWordChar CHR ''|''"
  by (simp add: isWordChar_def isAlnum_def between_def)

lemma bar_not_value: "\<not> isValueChar CHR ''|''"
  by (simp add: isValueChar_def isWordChar_def isAlnum_def between_def)

lemma strings_Split_nonempty: "strings_Split s \<noteq> []"
  by (induction s) (simp_all split: list.split)

lemma strings_Split_no_bar: "CHR ''|'' \<notin> set s \<Longrightarrow> strings_Split s = [s]"
  by (induction s) auto

lemma strings_Split_bar:
  "CHR ''|'' \<notin> set w \<Longrightarrow> strings_Split (w @ CHR ''|'' # v) = w # strings_Split v"
  by (induction w) auto

lemma takeWhile_no_bar_word: "CHR ''|'' \<notin> set (takeWhile isWordChar s)"
  using bar_not_word by (auto dest: set_takeWhileD)

lemma takeWhile_no_bar_value: "CHR ''|'' \<notin> set (takeWhile isValueChar s)"
  using bar_not_value by (auto dest: set_takeWhileD)

lemma matchAt_group:
  assumes "matchAt s = Some (g, rest)"
  shows "\<exists>w v. g = w @ CHR ''|'' # v \<and> w \<noteq> [] \<and> v \<noteq> []
           \<and> CHR ''|'' \<notin> set w \<and> CHR ''|'' \<notin> set v"
proof -
  obtain r1 where r: "dropWhile isWordChar s = CHR ''|'' # r1"
    using assms by (auto simp add: matchAt_def Let_def split: if_splits list.splits)
  have g: "g = takeWhile isWordChar s @ CHR ''|'' # takeWhile isValueChar r1"
    and w: "takeWhile isWordChar s \<noteq> []" and v: "takeWhile isValueChar r1 \<noteq> []"
    using assms r by (auto simp add: matchAt_def Let_def split: if_splits list.splits)
  from g w v takeWhile_no_bar_word takeWhile_no_bar_value show ?thesis by blast
qed

lemma reSearchTerms_groups:
  "g \<in> set (reSearchTerms s) \<Longrightarrow>
     \<exists>w v. g = w @ CHR ''|'' # v \<and> w \<noteq> [] \<and> v \<noteq> []
           \<and> CHR ''|'' \<notin> set w \<and> CHR ''|'' \<notin> set v"
proof (induction s rule: reSearchTerms.induct)
  case 1
  then show ?case by (simp add: reSearchTerms.simps)
next
  case (2 c cs)
  show ?case
  proof (cases "matchAt (c # cs)")
    case None
    with 2 show ?thesis by (simp add: reSearchTerms.simps)
  next
    case (Some m)
    obtain g' rest where m: "m = (g', rest)" by (cases m)
    with 2 Some matchAt_group [of "c # cs" g' rest] show ?thesis
      by (auto simp add: reSearchTerms.simps)
  qed
qed

lemma reSearchTerms_split:
  "g \<in> set (reSearchTerms s) \<Longrightarrow> \<exists>w v. strings_Split g = [w, v] \<and> g = w @ CHR ''|'' # v"
  using reSearchTerms_groups [of g s] by (auto simp add: strings_Split_bar strings_Split_no_bar)

lemma reSearchTerms_examples:
  "reSearchTerms ''Price|1000/Compare|<'' = [''Price|1000'', ''Compare|<'']"
  "reSearchTerms ''Price|1000/Compare|>'' = [''Price|1000'', ''Compare|>'']"
  "reSearchTerms ''Compare|>=/Price|250'' = [''Compare|>='', ''Price|250'']"
  by code_simp+

lemma searchTermsLoop_total:
  "\<forall>g \<in> set re. \<exists>w v. strings_Split g = [w, v] \<Longrightarrow> \<exists>ts. searchTermsLoop acc re = Inr ts"
  by (induction re arbitrary: acc) auto

lemma searchTermsLoop_matches: "\<exists>ts. searchTermsLoop acc (reSearchTerms s) = Inr ts"
  by (rule searchTermsLoop_total) (use reSearchTerms_split in blast)

lemma monitorTermsLoop_total:
  "\<forall>g \<in> set re. \<exists>w v. strings_Split g = [w, v] \<Longrightarrow>
     \<exists>ts st'. monitorTermsLoop a acc re st = Inr (ts, st')
        \<and> searchQueries st' = searchQueries st \<and> monitorQueries st' = monitorQueries st
        \<and> monitorPollDelay st' = monitorPollDelay st
        \<and> searchResultsFile st' = searchResultsFile st
        \<and> monitorResultsFile st' = monitorResultsFile st
        \<and> fetches st' = fetches st"
proof (induction re arbitrary: a acc st)
  case Nil
  then show ?case by simp
next
  case (Cons g re)
  then obtain w v where s: "strings_Split g = [w, v]" by auto
  have ih: "\<exists>ts st'. monitorTermsLoop a' acc' re st0 = Inr (ts, st')
        \<and> searchQueries st' = searchQueries st0 \<and> monitorQueries st' = monitorQueries st0
        \<and> monitorPollDelay st' = monitorPollDelay st0
        \<and> searchResultsFile st' = searchResultsFile st0
        \<and> monitorResultsFile st' = monitorResultsFile st0
        \<and> fetches st' = fetches st0" for a' acc' st0
    using Cons.IH [of a' acc' st0] Cons.prems by simp
  show ?case
    using s ih [of "a\<lparr>Val := v\<rparr>" "acc @ [a\<lparr>Val := v\<rparr>]" st]
      ih [of "a\<lparr>Key := ''PriceMax''\<rparr>" "acc @ [a\<lparr>Key := ''PriceMax''\<rparr>]" st]
      ih [of "a\<lparr>Key := ''PriceMin''\<rparr>" "acc @ [a\<lparr>Key := ''PriceMin''\<rparr>]" st]
      ih [of a "acc @ [a]" st]
      ih [of a acc "logmsg WarnLevel ''Unknown compare operator'' st"]
    by (simp add: logmsg_def)
qed

lemma monitorTerms_total:
  "\<exists>ts st'. monitorTerms key val st = Inr (ts, st')
        \<and> searchQueries st' = searchQueries st \<and> monitorQueries st' = monitorQueries st
        \<and> monitorPollDelay st' = monitorPollDelay st
        \<and> searchResultsFile st' = searchResultsFile st
        \<and> monitorResultsFile st' = monitorResultsFile st
        \<and> fetches st' = fetches st"
  unfolding monitorTerms_def
  by (rule monitorTermsLoop_total) (use reSearchTerms_split in blast)

text \<open>
  Reading the parts of a match never panics: every match of the regular expression
  splits at the bar into exactly two non-empty parts, so both loops over the matches
  return their term lists for every term string.
\<close>

theorem term_parsing_never_panics:
  "(\<exists>ts. searchTermsLoop [] (reSearchTerms value) = Inr ts)
   \<and> (\<exists>ts st'. monitorTerms key val st = Inr (ts, st'))
   \<and> (g \<in> set (reSearchTerms s) \<longrightarrow> (\<exists>k v. strings_Split g = [k, v] \<and> k \<noteq> [] \<and> v \<noteq> []))"
proof -
  have 1: "\<exists>ts. searchTermsLoop [] (reSearchTerms value) = Inr ts" by (rule searchTermsLoop_matches)
  have 2: "\<exists>ts st'. monitorTerms key val st = Inr (ts, st')"
    using monitorTerms_total [of key val st] by blast
  have 3: "\<exists>k v. strings_Split g = [k, v] \<and> k \<noteq> [] \<and> v \<noteq> []" if "g \<in> set (reSearchTerms s)"
    using reSearchTerms_groups [OF that] by (auto simp add: strings_Split_bar strings_Split_no_bar)
  from 1 2 3 show ?thesis by blast
qed

theorem term_parsing_never_panics_witness:
  "(\<exists>ts. searchTermsLoop [] (reSearchTerms ''Price|1000/Compare|<'') = Inr ts)
   \<and> ''Compare|<'' \<in> set (reSearchTerms ''Price|1000/Compare|<'')
   \<and> (\<exists>k v. strings_Split ''Compare|<'' = [k, v] \<and> k \<noteq> [] \<and> v \<noteq> [])"
  using term_parsing_never_panics [of "''Price|1000/Compare|<''" "[]" "[]" "initial [] []"
      "''Compare|<''" "''Price|1000/Compare|<''"]
  by (simp add: reSearchTerms_examples)

subsection \<open>The terms of a monitor item\<close>






section \<open>Properties of the scrape client\<close>

lemma queryBazaar_fst: "fst (queryBazaar net queryID ts st) = queryResult net queryID ts st"
  by (simp add: queryBazaar_def queryResult_def Let_def split: sum.split)

lemma queryBazaar_snd:
  "searchQueries (snd (queryBazaar net queryID ts st)) = searchQueries st"
  "monitorQueries (snd (queryBazaar net queryID ts st)) = monitorQueries st"
  "monitorPollDelay (snd (queryBazaar net queryID ts st)) = monitorPollDelay st"
  "searchResultsFile (snd (queryBazaar net queryID ts st)) = searchResultsFile st"
  "monitorResultsFile (snd (queryBazaar net queryID ts st)) = monitorResultsFile st"
  "fetches (snd (queryBazaar net queryID ts st)) = fetches st @ [(queryID, buildURL ts)]"
  by (simp_all add: queryBazaar_def Let_def logmsg_def split: sum.split)

lemma queryBazaar_logs:
  "logs (snd (queryBazaar net queryID ts st)) =
     logs st @ (case net (length (fetches st)) (buildURL ts) of
                  Inl err \<Rightarrow> [(ErrorLevel, ''Error loading URL'')]
                | Inr doc \<Rightarrow> (case scrape queryID doc of
                               Inl err \<Rightarrow> [(ErrorLevel, ''Error querying HTTP response body HTML'')]
                             | Inr rows \<Rightarrow> []))"
  by (simp add: queryBazaar_def Let_def logmsg_def split: sum.split)

lemma rowsLoop_cells:
  "rowsLoop queryID acc (map (\<lambda>tds. Node (Inr tds)) cells) =
     Inr (acc @ map (\<lambda>tds. queryID # map TrimSpace tds) (filter (\<lambda>tds. tds \<noteq> []) cells))"
  by (induction cells arbitrary: acc) (simp_all add: Let_def)

lemma TrimSpace_examples:
  "TrimSpace '' Fabled Earthshaker '' = ''Fabled Earthshaker''"
  "TrimSpace ''Fabled Earthshaker'' = ''Fabled Earthshaker''"
  "TrimSpace ''70,000'' = ''70,000''"
  "TrimSpace '' 75,000'' = ''75,000''"
  "TrimSpace ''Baelish '' = ''Baelish''"
  "TrimSpace ''Coinbuddy'' = ''Coinbuddy''"
  by code_simp+

text \<open>
  C7. When the page loads and both queries on it succeed, every table row with at
  least one cell gives one output row, the request ID followed by the trimmed texts of
  the cells, in table order; rows without cells give nothing. A table without rows
  gives the empty row set and no error. Two rows with cells and one without give two
  output rows.
\<close>

theorem queryBazaar_rows:
  "(net (length (fetches st)) (buildURL searchTerms)
      = Inr (Document (Inr (map (\<lambda>tds. Node (Inr tds)) cells))) \<longrightarrow>
    fst (queryBazaar net requestID searchTerms st)
      = Inr (map (\<lambda>tds. requestID # map TrimSpace tds) (filter (\<lambda>tds. tds \<noteq> []) cells)))
   \<and> (net (length (fetches st)) (buildURL searchTerms) = Inr (Document (Inr [])) \<longrightarrow>
        fst (queryBazaar net requestID searchTerms st) = Inr [])
   \<and> (tds1 \<noteq> [] \<and> tds2 \<noteq> [] \<and>
        net (length (fetches st)) (buildURL searchTerms)
          = Inr (Document (Inr [Node (Inr tds1), Node (Inr []), Node (Inr tds2)])) \<longrightarrow>
        fst (queryBazaar net requestID searchTerms st)
          = Inr [requestID # map TrimSpace tds1, requestID # map TrimSpace tds2])"
proof -
  have a: "net (length (fetches st)) (buildURL searchTerms)
      = Inr (Document (Inr (map (\<lambda>tds. Node (Inr tds)) cells))) \<Longrightarrow>
    fst (queryBazaar net requestID searchTerms st)
      = Inr (map (\<lambda>tds. requestID # map TrimSpace tds) (filter (\<lambda>tds. tds \<noteq> []) cells))"
    for cells
    by (simp add: queryBazaar_fst queryResult_def scrape_def rowsLoop_cells)
  have b: "net (length (fetches st)) (buildURL searchTerms) = Inr (Document (Inr [])) \<Longrightarrow>
        fst (queryBazaar net requestID searchTerms st) = Inr []"
    using a [of "[]"] by simp
  have c: "tds1 \<noteq> [] \<Longrightarrow> tds2 \<noteq> [] \<Longrightarrow>
        net (length (fetches st)) (buildURL searchTerms)
          = Inr (Document (Inr [Node (Inr tds1), Node (Inr []), Node (Inr tds2)])) \<Longrightarrow>
        fst (queryBazaar net requestID searchTerms st)
          = Inr [requestID # map TrimSpace tds1, requestID # map TrimSpace tds2]"
    using a [of "[tds1, [], tds2]"] by simp
  from a b c show ?thesis by blast
qed

theorem queryBazaar_rows_witness:
  "swordNetwork (length (fetches (initial [] []))) (buildURL [\<lparr>Key = ''Name'', Val = ''Fabled Earthshaker''\<rparr>])
      = Inr (Document (Inr [Node (Inr ['' Fabled Earthshaker '', ''70,000'', ''Baelish '']),
                            Node (Inr []),
                            Node (Inr [''Fabled Earthshaker'', '' 75,000'', ''Coinbuddy''])]))
   \<and> fst (queryBazaar swordNetwork ''wrugttwq2wajadhk'' [\<lparr>Key = ''Name'', Val = ''Fabled Earthshaker''\<rparr>]
            (initial [] []))
      = Inr [[''wrugttwq2wajadhk'', ''Fabled Earthshaker'', ''70,000'', ''Baelish''],
             [''wrugttwq2wajadhk'', ''Fabled Earthshaker'', ''75,000'', ''Coinbuddy'']]"
  using queryBazaar_rows [of swordNetwork "initial [] []"
      "[\<lparr>Key = ''Name'', Val = ''Fabled Earthshaker''\<rparr>]"
      "[['' Fabled Earthshaker '', ''70,000'', ''Baelish ''], [],
        [''Fabled Earthshaker'', '' 75,000'', ''Coinbuddy'']]"
      "''wrugttwq2wajadhk''"
      "['' Fabled Earthshaker '', ''70,000'', ''Baelish '']"
      "[''Fabled Earthshaker'', '' 75,000'', ''Coinbuddy'']"]
  by (simp add: swordNetwork_def swordPage_def TrimSpace_examples)

lemma rowsLoop_hasID:
  "rowsLoop queryID acc list = Inr rows \<Longrightarrow> list_all (hasID queryID) acc \<Longrightarrow>
     list_all (hasID queryID) rows"
proof (induction list arbitrary: acc)
  case Nil
  then show ?case by simp
next
  case (Cons n list)
  obtain tds where n: "n = Node tds" by (cases n)
  show ?case
  proof (cases tds)
    case (Inl err)
    with Cons.prems n show ?thesis by simp
  next
    case (Inr texts)
    show ?thesis
    proof (cases "texts = []")
      case True
      with Cons n Inr show ?thesis by (simp add: Let_def)
    next
      case False
      with Cons.prems n Inr
      have "rowsLoop queryID (acc @ [queryID # map TrimSpace texts]) list = Inr rows"
        by (simp add: Let_def)
      moreover have "hasID queryID (queryID # map TrimSpace texts)"
        by (simp add: hasID_def)
      with Cons.prems(2)
      have "list_all (hasID queryID) (acc @ [queryID # map TrimSpace texts])"
        by simp
      ultimately show ?thesis by (rule Cons.IH)
    qed
  qed
qed

lemma scrape_hasID: "scrape queryID doc = Inr rows \<Longrightarrow> list_all (hasID queryID) rows"
proof -
  assume a: "scrape queryID doc = Inr rows"
  obtain q where d: "doc = Document q" by (cases doc)
  with a obtain list where "q = Inr list" "rowsLoop queryID [] list = Inr rows"
    by (cases q) (simp_all add: scrape_def)
  then show ?thesis using rowsLoop_hasID [of queryID "[]" list rows] by simp
qed

lemma queryResult_hasID:
  "queryResult net queryID ts st = Inr rows \<Longrightarrow> list_all (hasID queryID) rows"
  by (auto simp add: queryResult_def split: sum.splits dest: scrape_hasID)

lemma rowsFor_all: "list_all (hasID queryID) rows \<Longrightarrow> rowsFor queryID rows = rows"
  by (induction rows) (simp_all add: rowsFor_def)

lemma otherRows_all: "list_all (hasID queryID) rows \<Longrightarrow> otherRows queryID rows = []"
  by (induction rows) (simp_all add: otherRows_def)

lemma hasID_other: "hasID i r \<Longrightarrow> i \<noteq> j \<Longrightarrow> \<not> hasID j r"
  by (cases r) (simp_all add: hasID_def)

lemma rowsFor_none: "list_all (hasID i) rows \<Longrightarrow> i \<noteq> j \<Longrightarrow> rowsFor j rows = []"
  by (induction rows) (auto simp add: rowsFor_def dest: hasID_other)

lemma rowsFor_append: "rowsFor i (xs @ ys) = rowsFor i xs @ rowsFor i ys"
  by (simp add: rowsFor_def)

lemma rowsFor_otherRows: "rowsFor queryID (otherRows queryID rows) = []"
  by (induction rows) (simp_all add: rowsFor_def otherRows_def)

lemma otherRows_idem: "otherRows queryID (otherRows queryID rows) = otherRows queryID rows"
  by (simp add: otherRows_def)

lemma rowsFor_otherRows_none: "rowsFor i rows = [] \<Longrightarrow> rowsFor i (otherRows j rows) = []"
  by (induction rows) (auto simp add: rowsFor_def otherRows_def split: if_splits)

lemma groupedBy_rowsFor:
  "groupedBy F Rs \<Longrightarrow> list_all (\<lambda>f. fst f \<noteq> i) F \<Longrightarrow> rowsFor i (concat Rs) = []"
  unfolding groupedBy_def
proof (induction F Rs rule: list_all2_induct)
  case Nil
  then show ?case by (simp add: rowsFor_def)
next
  case (Cons f F rows Rs)
  from Cons.prems have "fst f \<noteq> i" and "list_all (\<lambda>f. fst f \<noteq> i) F" by simp_all
  with Cons.hyps(1) Cons.IH show ?case
    by (simp add: rowsFor_append rowsFor_none)
qed

lemma queryResult_loadRows:
  "rowsOrNone (queryResult net i ts st) = loadRows net (length (fetches st)) (i, buildURL ts)"
  by (simp add: queryResult_def loadRows_def rowsOrNone_def split: sum.split)

lemma loadRows_hasID: "list_all (hasID (fst f)) (loadRows net n f)"
  by (auto simp add: loadRows_def rowsOrNone_def split: sum.split dest: scrape_hasID)

lemma loadsRows_append:
  "loadsRows net n (F @ G) = loadsRows net n F @ loadsRows net (n + length F) G"
  by (induction F arbitrary: n) simp_all

lemma newFetches_append: "fetches st' = fetches st @ F \<Longrightarrow> newFetches st st' = F"
  by (simp add: newFetches_def)

lemma loadsRows_split:
  assumes "fetches s1 = fetches s @ F1" and "fetches s' = fetches s1 @ F2"
  shows "loadsRows net (length (fetches s)) (newFetches s s')
           = loadsRows net (length (fetches s)) (newFetches s s1)
             @ loadsRows net (length (fetches s1)) (newFetches s1 s')"
proof -
  from assms have "newFetches s s' = F1 @ F2" "newFetches s s1 = F1" "newFetches s1 s' = F2"
    by (simp_all add: newFetches_def)
  with assms(1) show ?thesis by (simp add: loadsRows_append)
qed

section \<open>Reading a result file back\<close>

lemma readRecords_nonempty: "list_all (\<lambda>r. r \<noteq> []) (readRecords rows)"
  by (induction rows) (auto simp add: readRecords_def emptyLine_def)

lemma readField_same: "\<not> hasCRLF s \<Longrightarrow> readField s = s"
  by (induction s rule: readField.induct) auto

lemma readField_LF: "hasCRLF s \<Longrightarrow> CHR 0x0A \<in> set (readField s)"
  by (induction s rule: readField.induct) auto

lemma readField_eq:
  assumes "CHR 0x0A \<notin> set i"
  shows "(readField s = i) = (s = i)"
proof
  assume r: "readField s = i"
  with assms readField_LF [of s] have "\<not> hasCRLF s" by auto
  with r show "s = i" by (simp add: readField_same)
next
  assume e: "s = i"
  have "\<not> hasCRLF i" using assms by (induction i rule: hasCRLF.induct) auto
  with e show "readField s = i" by (simp add: readField_same)
qed

lemma hasID_read: "CHR 0x0A \<notin> set i \<Longrightarrow> hasID i (map readField r) = hasID i r"
  by (cases r) (simp_all add: hasID_def readField_eq)

lemma otherRows_read:
  "CHR 0x0A \<notin> set i \<Longrightarrow> otherRows i (readRecords rows) = readRecords (otherRows i rows)"
  by (induction rows) (simp_all add: otherRows_def readRecords_def hasID_read)

lemma rowsFor_read:
  "CHR 0x0A \<notin> set i \<Longrightarrow> rowsFor i (readRecords rows) = readRecords (rowsFor i rows)"
  by (induction rows) (simp_all add: rowsFor_def readRecords_def hasID_read)

lemma readsBack_same: "readsBack r \<Longrightarrow> map readField r = r"
proof -
  have "list_all (\<lambda>c. \<not> hasCRLF c) cs \<Longrightarrow> map readField cs = cs" for cs
    by (induction cs) (simp_all add: readField_same)
  then show "readsBack r \<Longrightarrow> map readField r = r" by (simp add: readsBack_def)
qed

lemma readRecords_Cons:
  "readsBack r \<Longrightarrow> readRecords (r # rows) = r # readRecords rows"
  using readsBack_same [of r] by (simp add: readRecords_def readsBack_def)

lemma readRecords_same: "list_all readsBack rows \<Longrightarrow> readRecords rows = rows"
  by (induction rows) (simp_all add: readRecords_Cons, simp add: readRecords_def)

lemma readRecords_subseq: "subseq (filter readsBack rows) (readRecords rows)"
proof (induction rows)
  case Nil
  show ?case by (simp add: readRecords_def)
next
  case (Cons r rows)
  show ?case
  proof (cases "readsBack r")
    case True
    with Cons show ?thesis by (simp add: readRecords_Cons)
  next
    case False
    have "readRecords (r # rows) = readRecords rows
          \<or> readRecords (r # rows) = map readField r # readRecords rows"
      by (simp add: readRecords_def)
    with False Cons show ?thesis by (auto simp add: list_emb_Cons)
  qed
qed

lemma readRecords_none:
  assumes "CHR 0x0A \<notin> set i" and "rowsFor i rows = []"
  shows "rowsFor i (otherRows j (readRecords rows)) = []"
proof -
  have "rowsFor i (readRecords rows) = readRecords (rowsFor i rows)"
    using assms(1) by (rule rowsFor_read)
  with assms(2) have "rowsFor i (readRecords rows) = []" by (simp add: readRecords_def)
  then show ?thesis by (rule rowsFor_otherRows_none)
qed

section \<open>Properties of the search loop\<close>

lemma processSearchQuery_hit:
  "getSearchQuery (fst key) st \<noteq> [] \<Longrightarrow> processSearchQuery net key st = Inr st"
  by (simp add: processSearchQuery_def)

lemma updateSearchQueries_fields:
  "searchQueries (updateSearchQueries k v st) = (searchQueries st)(k \<mapsto> v)"
  "monitorQueries (updateSearchQueries k v st) = monitorQueries st"
  "monitorPollDelay (updateSearchQueries k v st) = monitorPollDelay st"
  "searchResultsFile (updateSearchQueries k v st) = searchResultsFile st"
  "monitorResultsFile (updateSearchQueries k v st) = monitorResultsFile st"
  "fetches (updateSearchQueries k v st) = fetches st"
  "logs (updateSearchQueries k v st) = logs st"
  by (simp_all add: updateSearchQueries_def)

lemma processSearchQuery_miss:
  assumes "getSearchQuery (fst key) st = []"
  shows "\<exists>ts st'. searchTermsLoop [] (reSearchTerms (snd key)) = Inr ts
           \<and> processSearchQuery net key st = Inr st'
           \<and> searchQueries st' = (searchQueries st)(fst key \<mapsto> snd key)
           \<and> monitorQueries st' = monitorQueries st
           \<and> monitorPollDelay st' = monitorPollDelay st
           \<and> monitorResultsFile st' = monitorResultsFile st
           \<and> fetches st' = fetches st @ [(fst key, buildURL ts)]
           \<and> searchResultsFile st' = searchResultsFile st
                @ rowsOrNone (queryResult net (fst key) ts (updateSearchQueries (fst key) (snd key) st))"
proof -
  obtain ts where ts: "searchTermsLoop [] (reSearchTerms (snd key)) = Inr ts"
    using searchTermsLoop_matches by blast
  define st1 where "st1 = updateSearchQueries (fst key) (snd key) st"
  define res where "res = queryResult net (fst key) ts st1"
  define st2 where "st2 = snd (queryBazaar net (fst key) ts st1)"
  have q: "queryBazaar net (fst key) ts st1 = (res, st2)"
    unfolding res_def st2_def using queryBazaar_fst [of net "fst key" ts st1]
    by (simp add: prod_eq_iff)
  have p: "processSearchQuery net key st =
            (case res of
               Inl err \<Rightarrow> Inr (logmsg ErrorLevel ''Error querying Bazaar'' st2)
             | Inr rows \<Rightarrow>
                 Inr (logmsg InfoLevel ''Wrote rows to search results CSV''
                        (writeSearchCSV rows st2)))"
    using assms ts q unfolding st1_def
    by (simp add: processSearchQuery_def Let_def split: sum.split)
  have f: "searchQueries st2 = (searchQueries st)(fst key \<mapsto> snd key)"
    "monitorQueries st2 = monitorQueries st" "monitorPollDelay st2 = monitorPollDelay st"
    "monitorResultsFile st2 = monitorResultsFile st"
    "fetches st2 = fetches st @ [(fst key, buildURL ts)]"
    "searchResultsFile st2 = searchResultsFile st"
    unfolding st2_def st1_def by (simp_all add: queryBazaar_snd updateSearchQueries_fields)
  have r: "queryResult net (fst key) ts (updateSearchQueries (fst key) (snd key) st) = res"
    by (simp add: res_def st1_def)
  show ?thesis
  proof (cases res)
    case (Inl err)
    with p f ts r show ?thesis
      by (simp add: logmsg_def rowsOrNone_def)
  next
    case (Inr rows)
    with p f ts r show ?thesis
      by (simp add: logmsg_def rowsOrNone_def writeSearchCSV_def)
  qed
qed

lemma processSearchQuery_frame:
  "\<exists>st'. processSearchQuery net key st = Inr st'
         \<and> monitorQueries st' = monitorQueries st
         \<and> monitorPollDelay st' = monitorPollDelay st
         \<and> monitorResultsFile st' = monitorResultsFile st"
proof (cases "getSearchQuery (fst key) st = []")
  case True
  from processSearchQuery_miss [OF True, of net] show ?thesis by blast
next
  case False
  then show ?thesis by (simp add: processSearchQuery_hit)
qed

lemma processSearchQueries_frame:
  "\<exists>st'. processSearchQueries net keys st = Inr st'
         \<and> monitorQueries st' = monitorQueries st
         \<and> monitorPollDelay st' = monitorPollDelay st
         \<and> monitorResultsFile st' = monitorResultsFile st"
proof (induction keys arbitrary: st)
  case Nil
  then show ?case by simp
next
  case (Cons key keys)
  obtain st1 where 1: "processSearchQuery net key st = Inr st1"
    "monitorQueries st1 = monitorQueries st" "monitorPollDelay st1 = monitorPollDelay st"
    "monitorResultsFile st1 = monitorResultsFile st"
    using processSearchQuery_frame [of net key st] by blast
  from Cons.IH [of st1] 1 show ?case by simp
qed


lemma getSearchQuery_cong:
  "searchQueries st' = searchQueries st \<Longrightarrow> getSearchQuery i st' = getSearchQuery i st"
  by (simp add: getSearchQuery_def)

lemma searchEffectI:
  assumes "fetches st' = fetches st @ F"
    and "searchResultsFile st' = searchResultsFile st @ concat Rs"
    and "groupedBy F Rs"
    and "subseq (map fst F) (map fst keys)"
    and "list_all (\<lambda>f. getSearchQuery (fst f) st = []) F"
    and "\<And>i. getSearchQuery i st \<noteq> [] \<Longrightarrow> searchQueries st' i = searchQueries st i"
    and "list_all (\<lambda>key. snd key \<noteq> []) keys \<Longrightarrow>
            distinct (map fst F) \<and> list_all (\<lambda>f. getSearchQuery (fst f) st' \<noteq> []) F"
    and "\<And>i. nonemptyFor i keys \<Longrightarrow>
            count_list (map fst F) i \<le> 1
            \<and> (i \<in> set (map fst F) \<longrightarrow> getSearchQuery i st' \<noteq> [])"
  shows "searchEffect keys st st' F Rs"
  unfolding searchEffect_def using assms by simp

lemma searchEffectD:
  assumes "searchEffect keys st st' F Rs"
  shows "fetches st' = fetches st @ F"
    and "searchResultsFile st' = searchResultsFile st @ concat Rs"
    and "groupedBy F Rs"
    and "subseq (map fst F) (map fst keys)"
    and "list_all (\<lambda>f. getSearchQuery (fst f) st = []) F"
    and "\<And>i. getSearchQuery i st \<noteq> [] \<Longrightarrow> searchQueries st' i = searchQueries st i"
    and "list_all (\<lambda>key. snd key \<noteq> []) keys \<Longrightarrow> distinct (map fst F)"
    and "list_all (\<lambda>key. snd key \<noteq> []) keys \<Longrightarrow>
          list_all (\<lambda>f. getSearchQuery (fst f) st' \<noteq> []) F"
    and "\<And>i. nonemptyFor i keys \<Longrightarrow> count_list (map fst F) i \<le> 1"
    and "\<And>i. nonemptyFor i keys \<Longrightarrow> i \<in> set (map fst F) \<Longrightarrow> getSearchQuery i st' \<noteq> []"
  using assms unfolding searchEffect_def by simp_all

lemma processSearchQueries_effect:
  "\<exists>st' F Rs. processSearchQueries net keys st = Inr st' \<and> searchEffect keys st st' F Rs"
proof (induction keys arbitrary: st)
  case Nil
  have "searchEffect [] st st [] []" by (rule searchEffectI) (simp_all add: groupedBy_def)
  then show ?case by auto
next
  case (Cons key keys)
  show ?case
  proof (cases "getSearchQuery (fst key) st = []")
    case False
    then have h: "processSearchQuery net key st = Inr st" by (simp add: processSearchQuery_hit)
    from Cons.IH [of st] obtain st' F Rs
      where r: "processSearchQueries net keys st = Inr st'" and e: "searchEffect keys st st' F Rs"
      by blast
    note d = searchEffectD [OF e]
    have "searchEffect (key # keys) st st' F Rs"
    proof (rule searchEffectI)
      show "subseq (map fst F) (map fst (key # keys))" using d(4) by (simp add: list_emb_Cons)
      show "distinct (map fst F) \<and> list_all (\<lambda>f. getSearchQuery (fst f) st' \<noteq> []) F"
        if "list_all (\<lambda>key. snd key \<noteq> []) (key # keys)"
        using that d(7,8) by simp
      show "count_list (map fst F) i \<le> 1
            \<and> (i \<in> set (map fst F) \<longrightarrow> getSearchQuery i st' \<noteq> [])"
        if "nonemptyFor i (key # keys)" for i
      proof -
        from that have "nonemptyFor i keys" by (simp add: nonemptyFor_def)
        with d(9,10) [of i] show ?thesis by simp
      qed
    qed (use d(1-6) in simp_all)
    with h r show ?thesis by auto
  next
    case True
    from processSearchQuery_miss [OF True, of net] obtain ts st1
      where m: "searchTermsLoop [] (reSearchTerms (snd key)) = Inr ts
           \<and> processSearchQuery net key st = Inr st1
           \<and> searchQueries st1 = (searchQueries st)(fst key \<mapsto> snd key)
           \<and> monitorQueries st1 = monitorQueries st
           \<and> monitorPollDelay st1 = monitorPollDelay st
           \<and> monitorResultsFile st1 = monitorResultsFile st
           \<and> fetches st1 = fetches st @ [(fst key, buildURL ts)]
           \<and> searchResultsFile st1 = searchResultsFile st
                @ rowsOrNone (queryResult net (fst key) ts (updateSearchQueries (fst key) (snd key) st))"
      by (elim exE)
    from m have p: "processSearchQuery net key st = Inr st1"
        and c: "searchQueries st1 = (searchQueries st)(fst key \<mapsto> snd key)"
        and f: "fetches st1 = fetches st @ [(fst key, buildURL ts)]"
        and w: "searchResultsFile st1 = searchResultsFile st
                @ rowsOrNone (queryResult net (fst key) ts (updateSearchQueries (fst key) (snd key) st))"
      by simp_all
    define R1 where "R1 = rowsOrNone (queryResult net (fst key) ts (updateSearchQueries (fst key) (snd key) st))"
    have h1: "list_all (hasID (fst key)) R1"
      unfolding R1_def rowsOrNone_def
      by (auto split: sum.split dest: queryResult_hasID)
    have g1: "getSearchQuery i st1 = (if i = fst key then snd key else getSearchQuery i st)" for i
      by (simp add: getSearchQuery_def c)
    from Cons.IH [of st1] obtain st' F Rs
      where r: "processSearchQueries net keys st1 = Inr st'" and e: "searchEffect keys st1 st' F Rs"
      by blast
    note d = searchEffectD [OF e]
    let ?F = "(fst key, buildURL ts) # F" and ?Rs = "R1 # Rs"
    have "searchEffect (key # keys) st st' ?F ?Rs"
    proof (rule searchEffectI)
      show "fetches st' = fetches st @ ?F" using d(1) f by simp
      show "searchResultsFile st' = searchResultsFile st @ concat ?Rs"
        using d(2) w by (simp add: R1_def)
      show "groupedBy ?F ?Rs" using d(3) h1 by (simp add: groupedBy_def)
      show "subseq (map fst ?F) (map fst (key # keys))" using d(4) by simp
      have before: "getSearchQuery i st = []" if "getSearchQuery i st1 = []" for i
        using that True by (cases "i = fst key") (simp_all add: g1)
      have "list_all (\<lambda>f. getSearchQuery (fst f) st = []) F"
        unfolding list_all_iff
      proof
        fix f assume "f \<in> set F"
        with d(5) have "getSearchQuery (fst f) st1 = []" by (simp add: list_all_iff)
        then show "getSearchQuery (fst f) st = []" by (rule before)
      qed
      with True show "list_all (\<lambda>f. getSearchQuery (fst f) st = []) ?F" by simp
      show "searchQueries st' i = searchQueries st i" if n: "getSearchQuery i st \<noteq> []" for i
      proof -
        from n True have ne: "i \<noteq> fst key" by auto
        with n have "getSearchQuery i st1 \<noteq> []" by (simp add: g1)
        then have "searchQueries st' i = searchQueries st1 i" by (rule d(6))
        with ne c show ?thesis by simp
      qed
      show "distinct (map fst ?F) \<and> list_all (\<lambda>f. getSearchQuery (fst f) st' \<noteq> []) ?F"
        if a: "list_all (\<lambda>key. snd key \<noteq> []) (key # keys)"
      proof -
        from a have v: "snd key \<noteq> []" and a': "list_all (\<lambda>key. snd key \<noteq> []) keys" by simp_all
        note dd = d(7) [OF a'] and l = d(8) [OF a']
        have k1: "getSearchQuery (fst key) st1 \<noteq> []" using v by (simp add: g1)
        with d(5) have nin: "fst key \<notin> set (map fst F)" by (auto simp add: list_all_iff)
        from k1 have "searchQueries st' (fst key) = searchQueries st1 (fst key)" by (rule d(6))
        then have "getSearchQuery (fst key) st' = getSearchQuery (fst key) st1"
          by (simp add: getSearchQuery_def)
        with k1 dd l nin show ?thesis by simp
      qed
      show "count_list (map fst ?F) i \<le> 1
            \<and> (i \<in> set (map fst ?F) \<longrightarrow> getSearchQuery i st' \<noteq> [])"
        if a: "nonemptyFor i (key # keys)" for i
      proof (cases "i = fst key")
        case True
        with a have v: "snd key \<noteq> []" by (simp add: nonemptyFor_def)
        have k1: "getSearchQuery i st1 \<noteq> []" using v True by (simp add: g1)
        have nin: "i \<notin> set (map fst F)"
        proof
          assume "i \<in> set (map fst F)"
          then obtain f where "f \<in> set F" "fst f = i" by auto
          with d(5) have "getSearchQuery i st1 = []" by (auto simp add: list_all_iff)
          with k1 show False by simp
        qed
        from k1 have "searchQueries st' i = searchQueries st1 i" by (rule d(6))
        then have "getSearchQuery i st' = getSearchQuery i st1" by (simp add: getSearchQuery_def)
        with k1 nin True show ?thesis by (simp add: count_list_0_iff)
      next
        case False
        from a have "nonemptyFor i keys" by (simp add: nonemptyFor_def)
        with d(9,10) [of i] False show ?thesis by auto
      qed
    qed
    moreover have "processSearchQueries net (key # keys) st = Inr st'" using p r by simp
    ultimately show ?thesis by blast
  qed
qed

lemma searchEffect_nil:
  assumes "fetches st' = fetches st" "searchResultsFile st' = searchResultsFile st"
    "searchQueries st' = searchQueries st"
  shows "searchEffect keys st st' [] []"
  by (rule searchEffectI) (simp_all add: assms groupedBy_def)

lemma searchEffect_from:
  assumes "searchEffect keys st0 st' F Rs"
    and "fetches st0 = fetches st" "searchResultsFile st0 = searchResultsFile st"
    "searchQueries st0 = searchQueries st"
  shows "searchEffect keys st st' F Rs"
proof -
  note d = searchEffectD [OF assms(1)]
  have g: "getSearchQuery i st0 = getSearchQuery i st" for i
    by (simp add: getSearchQuery_def assms(4))
  show ?thesis
  proof (rule searchEffectI)
    show "searchQueries st' i = searchQueries st i" if "getSearchQuery i st \<noteq> []" for i
      using d(6) [of i] that by (simp add: g assms(4))
    show "distinct (map fst F) \<and> list_all (\<lambda>f. getSearchQuery (fst f) st' \<noteq> []) F"
      if "list_all (\<lambda>key. snd key \<noteq> []) keys"
      using d(7,8) that by simp
    show "count_list (map fst F) i \<le> 1
            \<and> (i \<in> set (map fst F) \<longrightarrow> getSearchQuery i st' \<noteq> [])"
      if "nonemptyFor i keys" for i
      using d(9,10) [of i] that by simp
  qed (use d(1-5) assms(2,3) g in simp_all)
qed

text \<open>
  An ID that the search cache holds with non-empty content stays as it is through
  the search loop: it is not loaded and no row of it is written.
\<close>

lemma cached_effect:
  assumes e: "searchEffect keys st st' F Rs" and c: "getSearchQuery i st \<noteq> []"
  shows "searchQueries st' i = searchQueries st i \<and> list_all (\<lambda>f. fst f \<noteq> i) F
         \<and> rowsFor i (searchResultsFile st') = rowsFor i (searchResultsFile st)"
proof -
  note d = searchEffectD [OF e]
  have 1: "searchQueries st' i = searchQueries st i" using c by (rule d(6))
  have 2: "list_all (\<lambda>f. fst f \<noteq> i) F"
    unfolding list_all_iff
  proof
    fix f assume "f \<in> set F"
    with d(5) have "getSearchQuery (fst f) st = []" by (simp add: list_all_iff)
    with c show "fst f \<noteq> i" by auto
  qed
  have 3: "rowsFor i (searchResultsFile st') = rowsFor i (searchResultsFile st)"
    using groupedBy_rowsFor [OF d(3) 2] by (simp add: d(2) rowsFor_append)
  from 1 2 3 show ?thesis by simp
qed

lemma cached_search:
  assumes "processSearchQueries net keys st = Inr st'" and c: "getSearchQuery i st \<noteq> []"
  shows "searchQueries st' i = searchQueries st i
         \<and> list_all (\<lambda>f. fst f \<noteq> i) (newFetches st st')
         \<and> rowsFor i (searchResultsFile st') = rowsFor i (searchResultsFile st)"
proof -
  from processSearchQueries_effect [of net keys st] assms(1) obtain F Rs
    where e: "searchEffect keys st st' F Rs" by auto
  from searchEffectD(1) [OF e] have "newFetches st st' = F" by (simp add: newFetches_def)
  with cached_effect [OF e c] show ?thesis by simp
qed

section \<open>Properties of a reload\<close>

lemma registerMonitor_fields:
  "monitorPollDelay (fold (\<lambda>key. updateMonitorQuery (fst key) (snd key)) ks st) = monitorPollDelay st"
  "searchQueries (fold (\<lambda>key. updateMonitorQuery (fst key) (snd key)) ks st) = searchQueries st"
  "searchResultsFile (fold (\<lambda>key. updateMonitorQuery (fst key) (snd key)) ks st) = searchResultsFile st"
  "monitorResultsFile (fold (\<lambda>key. updateMonitorQuery (fst key) (snd key)) ks st) = monitorResultsFile st"
  "fetches (fold (\<lambda>key. updateMonitorQuery (fst key) (snd key)) ks st) = fetches st"
  "logs (fold (\<lambda>key. updateMonitorQuery (fst key) (snd key)) ks st) = logs st"
  by (induction ks arbitrary: st) (simp_all add: updateMonitorQuery_def)

lemma registerAndSearch_frame:
  "\<exists>st'. registerAndSearch net cfg st = Inr st'
         \<and> monitorPollDelay st' = monitorPollDelay st
         \<and> monitorResultsFile st' = monitorResultsFile st"
proof (cases "Monitor cfg")
  case None
  then show ?thesis by (simp add: registerAndSearch_def logmsg_def)
next
  case (Some monitorKeys)
  define st1 where "st1 = fold (\<lambda>key. updateMonitorQuery (fst key) (snd key)) monitorKeys
                       (deleteMonitorQueries st)"
  have f: "monitorPollDelay st1 = monitorPollDelay st" "monitorResultsFile st1 = monitorResultsFile st"
    by (simp_all add: st1_def registerMonitor_fields deleteMonitorQueries_def)
  show ?thesis
  proof (cases "Queries cfg")
    case None
    with Some f show ?thesis
      by (simp add: registerAndSearch_def logmsg_def st1_def [symmetric])
  next
    case (Some searchKeys)
    with \<open>Monitor cfg = Some monitorKeys\<close> f processSearchQueries_frame [of net searchKeys st1]
    show ?thesis
      by (auto simp add: registerAndSearch_def st1_def [symmetric])
  qed
qed

text \<open>
  C9. When the configuration has a General section whose poll-delay key parses as an
  integer \<open>v\<close>, the reload runs to its end and leaves the poll delay at 60 when
  \<open>v\<close> is less than 60, and at \<open>v\<close> otherwise.
\<close>

theorem poll_delay_clamped:
  "General cfg = Some (Some (v, False)) \<Longrightarrow>
     \<exists>st'. processMonitorFile net (Some cfg) st = Inr st'
          \<and> monitorPollDelay st' = (if v < 60 then 60 else v)"
proof -
  assume g: "General cfg = Some (Some (v, False))"
  show ?thesis
  proof (cases "v < 60")
    case True
    with g registerAndSearch_frame [of net cfg
        "(logmsg WarnLevel ''Monitor Poll Delay cannot be less than 60 seconds. Setting to 60 seconds''
            (st\<lparr>monitorPollDelay := v\<rparr>))\<lparr>monitorPollDelay := 60\<rparr>"]
    show ?thesis by (auto simp add: processMonitorFile_def Let_def)
  next
    case False
    with g registerAndSearch_frame [of net cfg "st\<lparr>monitorPollDelay := v\<rparr>"]
    show ?thesis by (auto simp add: processMonitorFile_def Let_def)
  qed
qed

theorem poll_delay_clamped_witness:
  "General (pollConfig 30 False) = Some (Some (30, False))
   \<and> (\<exists>st'. processMonitorFile deadNetwork (Some (pollConfig 30 False)) (initial [] []) = Inr st'
          \<and> monitorPollDelay st' = 60)
   \<and> General (pollConfig 90 False) = Some (Some (90, False))
   \<and> (\<exists>st'. processMonitorFile deadNetwork (Some (pollConfig 90 False)) (initial [] []) = Inr st'
          \<and> monitorPollDelay st' = 90)"
  using poll_delay_clamped [of "pollConfig 30 False" 30 deadNetwork "initial [] []"]
    poll_delay_clamped [of "pollConfig 90 False" 90 deadNetwork "initial [] []"]
  by (simp add: pollConfig_def)

text \<open>
  C6 (as the code has it). When the configuration file cannot be read, the failure
  is logged by \<open>log.Fatal\<close> and the process ends. When the poll-delay value does not
  parse as an integer, the failure is logged and the reload stops there without ending
  the process: the monitor set, the search cache, both result files and the list of
  page loads are as they were before.
\<close>

theorem reload_config_errors:
  "processMonitorFile net None st = Inl (Fatal ''Fail to read file'')
   \<and> (General cfg = Some (Some (v, True)) \<longrightarrow>
        (\<exists>st'. processMonitorFile net (Some cfg) st = Inr st'
           \<and> logs st' = logs st @ [(InfoLevel, ''Monitor Poll Delay setting is not an integer'')]
           \<and> monitorQueries st' = monitorQueries st
           \<and> searchQueries st' = searchQueries st
           \<and> searchResultsFile st' = searchResultsFile st
           \<and> monitorResultsFile st' = monitorResultsFile st
           \<and> fetches st' = fetches st))"
proof -
  have unreadable: "processMonitorFile net None st = Inl (Fatal ''Fail to read file'')"
    by (simp add: processMonitorFile_def)
  have malformed: "\<exists>st'. processMonitorFile net (Some cfg) st = Inr st'
           \<and> logs st' = logs st @ [(InfoLevel, ''Monitor Poll Delay setting is not an integer'')]
           \<and> monitorQueries st' = monitorQueries st
           \<and> searchQueries st' = searchQueries st
           \<and> searchResultsFile st' = searchResultsFile st
           \<and> monitorResultsFile st' = monitorResultsFile st
           \<and> fetches st' = fetches st"
    if g: "General cfg = Some (Some (v, True))"
  proof -
    let ?st' = "logmsg InfoLevel ''Monitor Poll Delay setting is not an integer''
                  (st\<lparr>monitorPollDelay := v\<rparr>)"
    have "processMonitorFile net (Some cfg) st = Inr ?st'"
      using g by (simp add: processMonitorFile_def Let_def)
    moreover have "logs ?st' = logs st @ [(InfoLevel, ''Monitor Poll Delay setting is not an integer'')]"
      and "monitorQueries ?st' = monitorQueries st" and "searchQueries ?st' = searchQueries st"
      and "searchResultsFile ?st' = searchResultsFile st"
      and "monitorResultsFile ?st' = monitorResultsFile st" and "fetches ?st' = fetches st"
      by (simp_all add: logmsg_def)
    ultimately show ?thesis by blast
  qed
  from unreadable malformed show ?thesis by blast
qed

theorem reload_config_errors_witness:
  "processMonitorFile deadNetwork None (initial [] []) = Inl (Fatal ''Fail to read file'')
   \<and> General (pollConfig 0 True) = Some (Some (0, True))
   \<and> (\<exists>st'. processMonitorFile deadNetwork (Some (pollConfig 0 True)) (initial [] []) = Inr st'
           \<and> logs st' = [(InfoLevel, ''Monitor Poll Delay setting is not an integer'')]
           \<and> monitorQueries st' = []
           \<and> searchQueries st' = Map.empty
           \<and> searchResultsFile st' = []
           \<and> monitorResultsFile st' = []
           \<and> fetches st' = [])"
  using reload_config_errors [of deadNetwork "initial [] []" "pollConfig 0 True" 0]
  by (auto simp add: pollConfig_def initial_def)

text \<open>
  C6 as the specification words it says that an unreadable configuration file does
  not end the process and that a malformed poll delay leaves the previous value or the
  floor in place. An unreadable file is fatal; and a value that does not parse
  replaces the poll delay of 600 seconds by 0, the integer that \<open>Int()\<close> returns with
  its error.
\<close>

theorem reload_unreadable_counterexample:
  "processMonitorFile deadNetwork None (initial [] []) = Inl (Fatal ''Fail to read file'')
   \<and> monitorPollDelay (initial [] []) = 600
   \<and> map_sum id monitorPollDelay
        (processMonitorFile deadNetwork (Some (pollConfig 0 True)) (initial [] [])) = Inr 0"
  by (simp add: processMonitorFile_def pollConfig_def initial_def logmsg_def)

text \<open>
  The assignment of the result of \<open>Int()\<close> comes before the test of its error: a
  poll-delay value that does not parse leaves in \<open>monitorPollDelay\<close> the integer
  returned with the error, below the floor of 60 seconds when that integer is.
\<close>

theorem malformed_poll_delay_overwrites:
  "General cfg = Some (Some (v, True)) \<Longrightarrow>
     \<exists>st'. processMonitorFile net (Some cfg) st = Inr st' \<and> monitorPollDelay st' = v"
  by (simp add: processMonitorFile_def Let_def logmsg_def)

theorem malformed_poll_delay_overwrites_witness:
  "General (pollConfig 0 True) = Some (Some (0, True))
   \<and> monitorPollDelay (initial [] []) = 600
   \<and> (\<exists>st'. processMonitorFile deadNetwork (Some (pollConfig 0 True)) (initial [] []) = Inr st'
          \<and> monitorPollDelay st' = 0)"
  using malformed_poll_delay_overwrites [of "pollConfig 0 True" 0 deadNetwork "initial [] []"]
  by (simp add: pollConfig_def initial_def)

lemma registerAndSearch_effect:
  "\<exists>st' F Rs. registerAndSearch net cfg st = Inr st'
     \<and> searchEffect (searchKeys (Some cfg)) st st' F Rs"
proof (cases "Monitor cfg")
  case None
  have "searchEffect (searchKeys (Some cfg)) st
          (logmsg InfoLevel ''Queries section does not exist or is empty'' st) [] []"
    by (rule searchEffect_nil) (simp_all add: logmsg_def)
  with None show ?thesis by (auto simp add: registerAndSearch_def)
next
  case (Some monitorKeys)
  define st1 where "st1 = fold (\<lambda>key. updateMonitorQuery (fst key) (snd key)) monitorKeys
                       (deleteMonitorQueries st)"
  have f: "fetches st1 = fetches st" "searchResultsFile st1 = searchResultsFile st"
    "searchQueries st1 = searchQueries st"
    by (simp_all add: st1_def registerMonitor_fields deleteMonitorQueries_def)
  show ?thesis
  proof (cases "Queries cfg")
    case None
    have "searchEffect (searchKeys (Some cfg)) st
          (logmsg InfoLevel ''Queries section does not exist or is empty'' st1) [] []"
      by (rule searchEffect_nil) (simp_all add: logmsg_def f)
    with None Some show ?thesis by (auto simp add: registerAndSearch_def st1_def [symmetric])
  next
    case (Some keys)
    from processSearchQueries_effect [of net keys st1] obtain st' F Rs
      where r: "processSearchQueries net keys st1 = Inr st'" and e: "searchEffect keys st1 st' F Rs"
      by blast
    from searchEffect_from [OF e f] Some
    have "searchEffect (searchKeys (Some cfg)) st st' F Rs" by (simp add: searchKeys_def)
    moreover have "registerAndSearch net cfg st = Inr st'"
      using r Some \<open>Monitor cfg = Some monitorKeys\<close>
      by (simp add: registerAndSearch_def st1_def [symmetric])
    ultimately show ?thesis by blast
  qed
qed

lemma registerAndSearch_effect_from:
  assumes "fetches st0 = fetches st" "searchResultsFile st0 = searchResultsFile st"
    "searchQueries st0 = searchQueries st"
  shows "\<exists>st' F Rs. registerAndSearch net cfg st0 = Inr st'
     \<and> searchEffect (searchKeys (Some cfg)) st st' F Rs"
proof -
  from registerAndSearch_effect [of net cfg st0] obtain st' F Rs
    where r: "registerAndSearch net cfg st0 = Inr st'"
      and e: "searchEffect (searchKeys (Some cfg)) st0 st' F Rs"
    by blast
  from searchEffect_from [OF e assms] r show ?thesis by blast
qed

lemma processMonitorFile_effect:
  "\<exists>st' F Rs. processMonitorFile net (Some cfg) st = Inr st'
     \<and> searchEffect (searchKeys (Some cfg)) st st' F Rs"
proof (cases "General cfg")
  case None
  have "searchEffect (searchKeys (Some cfg)) st
          (logmsg InfoLevel ''General section does not exist or is empty'' st) [] []"
    by (rule searchEffect_nil) (simp_all add: logmsg_def)
  with None show ?thesis by (auto simp add: processMonitorFile_def)
next
  case (Some pollDelay)
  show ?thesis
  proof (cases pollDelay)
    case None
    with Some registerAndSearch_effect_from [of
        "logmsg WarnLevel ''Monitor Poll Delay setting does not exist or is empty'' st" st net cfg]
    show ?thesis by (simp add: processMonitorFile_def logmsg_def)
  next
    case (Some r)
    obtain v err where r: "r = (v, err)" by (cases r)
    show ?thesis
    proof (cases err)
      case True
      have "searchEffect (searchKeys (Some cfg)) st
          (logmsg InfoLevel ''Monitor Poll Delay setting is not an integer''
             (st\<lparr>monitorPollDelay := v\<rparr>)) [] []"
        by (rule searchEffect_nil) (simp_all add: logmsg_def)
      with True r Some \<open>General cfg = Some pollDelay\<close> show ?thesis
        by (auto simp add: processMonitorFile_def Let_def)
    next
      case False
      show ?thesis
      proof (cases "v < 60")
        case True
        with False r Some \<open>General cfg = Some pollDelay\<close> registerAndSearch_effect_from [of
            "(logmsg WarnLevel ''Monitor Poll Delay cannot be less than 60 seconds. Setting to 60 seconds''
                (st\<lparr>monitorPollDelay := v\<rparr>))\<lparr>monitorPollDelay := 60\<rparr>" st net cfg]
        show ?thesis by (simp add: processMonitorFile_def logmsg_def Let_def)
      next
        case ge: False
        with False r Some \<open>General cfg = Some pollDelay\<close> registerAndSearch_effect_from [of
            "st\<lparr>monitorPollDelay := v\<rparr>" st net cfg]
        show ?thesis by (simp add: processMonitorFile_def Let_def)
      qed
    qed
  qed
qed

lemma reload_effect:
  assumes "processMonitorFile net loaded st = Inr st'"
  shows "\<exists>Rs. searchEffect (searchKeys loaded) st st' (newFetches st st') Rs"
proof -
  from assms obtain cfg where l: "loaded = Some cfg"
    by (cases loaded) (simp_all add: processMonitorFile_def)
  from processMonitorFile_effect [of net cfg st] assms l obtain F Rs
    where e: "searchEffect (searchKeys loaded) st st' F Rs" by auto
  from searchEffectD(1) [OF e] have "newFetches st st' = F" by (simp add: newFetches_def)
  with e show ?thesis by blast
qed

section \<open>Properties of the monitor loop\<close>

lemma keepRows_result:
  "keepRows queryID out rows = Inr res \<Longrightarrow> res = out @ otherRows queryID rows"
proof (induction rows arbitrary: out)
  case Nil
  then show ?case by (simp add: otherRows_def)
next
  case (Cons r rows)
  show ?case
  proof (cases r)
    case Nil
    with Cons.prems show ?thesis by simp
  next
    case (Cons r0 cells)
    show ?thesis
    proof (cases "r0 = queryID")
      case True
      with Cons.prems Cons have "keepRows queryID out rows = Inr res" by simp
      from Cons.IH [OF this] True Cons show ?thesis by (simp add: otherRows_def hasID_def)
    next
      case False
      with Cons.prems Cons have "keepRows queryID (out @ [r]) rows = Inr res" by simp
      from Cons.IH [OF this] False Cons show ?thesis by (simp add: otherRows_def hasID_def)
    qed
  qed
qed

lemma keepRows_total:
  "list_all (\<lambda>r. r \<noteq> []) rows \<Longrightarrow> \<exists>res. keepRows queryID out rows = Inr res"
  by (induction rows arbitrary: out) (auto split: list.split)

lemma csvReadAll_result: "csvReadAll file = Inr rows \<Longrightarrow> rows = readRecords file"
  by (auto simp add: csvReadAll_def split: list.splits if_splits)

lemma csvReadAll_total:
  "list_all (\<lambda>r. length r = n) (readRecords rows) \<Longrightarrow> csvReadAll rows = Inr (readRecords rows)"
  by (cases "readRecords rows") (auto simp add: csvReadAll_def list_all_iff)

lemma deleteFromMonitorCSV_result:
  assumes "deleteFromMonitorCSV queryID st = Inr st'"
  shows "st' = st\<lparr>monitorResultsFile := otherRows queryID (readRecords (monitorResultsFile st))\<rparr>"
proof -
  from assms obtain rows where r: "csvReadAll (monitorResultsFile st) = Inr rows"
    by (auto simp add: deleteFromMonitorCSV_def split: sum.splits)
  with assms obtain out where o: "keepRows queryID [] rows = Inr out"
    and s: "st' = st\<lparr>monitorResultsFile := out\<rparr>"
    by (auto simp add: deleteFromMonitorCSV_def split: sum.splits)
  from csvReadAll_result [OF r] keepRows_result [OF o] s show ?thesis by simp
qed

lemma EncodeToString_length: "length (EncodeToString src) = 2 * length src"
  by (induction src) (simp_all add: EncodeToString_def)

lemma hexHash_length: "length (hexHash md5Sum key) = 32"
  by (simp add: hexHash_def EncodeToString_length digestBytes_def)

lemma hexHash_not_header: "\<not> hasID (hexHash md5Sum key) csvHeader"
proof
  assume "hasID (hexHash md5Sum key) csvHeader"
  then have "hexHash md5Sum key = ''QueryID''" by (simp add: hasID_def csvHeader_def)
  then have "length (hexHash md5Sum key) = 7" by simp
  with hexHash_length [of md5Sum key] show False by simp
qed

lemma hextable_in: "n < 16 \<Longrightarrow> hextable n \<in> set ''0123456789abcdef''"
  unfolding hextable_def by (rule nth_mem) simp

lemma EncodeToString_hex: "set (EncodeToString src) \<subseteq> set ''0123456789abcdef''"
proof -
  have "hextable (unat v div 16) \<in> set ''0123456789abcdef''
        \<and> hextable (unat v mod 16) \<in> set ''0123456789abcdef''" for v :: "8 word"
  proof -
    have "unat v < 256" using unsigned_less [of v] by simp
    then have "unat v div 16 < 16" by (simp add: less_mult_imp_div_less)
    moreover have "unat v mod 16 < 16" by simp
    ultimately show ?thesis by (simp only: hextable_in)
  qed
  then show ?thesis unfolding EncodeToString_def by (induction src) auto
qed

lemma hexHash_LF: "CHR 0x0A \<notin> set (hexHash md5Sum key)"
  using EncodeToString_hex [of "digestBytes (md5Sum key)"] by (auto simp add: hexHash_def)

text \<open>One pass of the body of the monitor loop, taken apart.\<close>

lemma processMonitorItem_parts:
  assumes "processMonitorItem net md5Sum (key, val) st = Inr st'"
    and "monitorTerms key val st = Inr (ts, st1)"
  shows "\<exists>st2 st3. deleteFromMonitorCSV (hexHash md5Sum key) st1 = Inr st2
           \<and> st2 = st1\<lparr>monitorResultsFile :=
                       otherRows (hexHash md5Sum key) (readRecords (monitorResultsFile st))\<rparr>
           \<and> st3 = snd (queryBazaar net (hexHash md5Sum key) ts st2)
           \<and> queryResult net (hexHash md5Sum key) ts st2 = queryResult net (hexHash md5Sum key) ts st
           \<and> st' = (case queryResult net (hexHash md5Sum key) ts st of
                      Inl err \<Rightarrow> logmsg ErrorLevel ''Error querying Bazaar'' st3
                    | Inr rows \<Rightarrow> logmsg InfoLevel ''Wrote rows to monitor results CSV''
                                   (writeMonitorCSV rows st3))"
proof -
  let ?id = "hexHash md5Sum key"
  from monitorTerms_total [of key val st] assms(2)
  have f1: "monitorResultsFile st1 = monitorResultsFile st" "fetches st1 = fetches st"
    by auto
  from assms obtain st2 where d: "deleteFromMonitorCSV ?id st1 = Inr st2"
    by (auto simp add: processMonitorItem_def split: sum.splits)
  from deleteFromMonitorCSV_result [OF d] f1
  have s2: "st2 = st1\<lparr>monitorResultsFile := otherRows ?id (readRecords (monitorResultsFile st))\<rparr>"
    by simp
  then have f2: "fetches st2 = fetches st" using f1 by simp
  have qr: "queryResult net ?id ts st2 = queryResult net ?id ts st"
    by (simp add: queryResult_def f2)
  define st3 where "st3 = snd (queryBazaar net ?id ts st2)"
  have q: "queryBazaar net ?id ts st2 = (queryResult net ?id ts st, st3)"
    unfolding st3_def using queryBazaar_fst [of net ?id ts st2] qr by (simp add: prod_eq_iff)
  have "st' = (case queryResult net ?id ts st of
                      Inl err \<Rightarrow> logmsg ErrorLevel ''Error querying Bazaar'' st3
                    | Inr rows \<Rightarrow> logmsg InfoLevel ''Wrote rows to monitor results CSV''
                                   (writeMonitorCSV rows st3))"
    using assms d q by (simp add: processMonitorItem_def split: sum.splits)
  with d s2 st3_def qr show ?thesis by blast
qed

lemma processMonitorItem_total:
  assumes "list_all (\<lambda>r. length r = n) (readRecords (monitorResultsFile st))"
  shows "\<exists>st'. processMonitorItem net md5Sum item st = Inr st'"
proof -
  obtain ts st1 where t: "monitorTerms (fst item) (snd item) st = Inr (ts, st1)"
    and f: "monitorResultsFile st1 = monitorResultsFile st"
    using monitorTerms_total [of "fst item" "snd item" st] by blast
  have r: "csvReadAll (monitorResultsFile st1) = Inr (readRecords (monitorResultsFile st))"
    using csvReadAll_total [OF assms] f by simp
  from keepRows_total [OF readRecords_nonempty]
  obtain out where k: "keepRows (hexHash md5Sum (fst item)) [] (readRecords (monitorResultsFile st)) = Inr out"
    by blast
  show ?thesis
    using t r k by (simp add: processMonitorItem_def deleteFromMonitorCSV_def split: prod.split sum.split)
qed

lemma shardSum_hex: "hexHash shardSum ''Velium Shard'' = ''6be2eeb8e151c61af564e62ba369a75c''"
  by code_simp

lemma shardFile_read: "readRecords shardFile = shardFile"
  by code_simp

lemma shardFile_fields: "list_all (\<lambda>r. length r = 4) (readRecords (monitorResultsFile shardState))"
  by (simp add: shardState_def shardFile_read) (simp add: shardFile_def csvHeader_def)

lemma shard_step_total: "\<exists>st'. processMonitorItem net md5Sum item shardState = Inr st'"
  by (rule processMonitorItem_total [OF shardFile_fields])

lemma shard_terms:
  "monitorTerms ''Velium Shard'' ''Price|1000/Compare|<'' shardState
     = Inr ([\<lparr>Key = ''Name'', Val = ''Velium Shard''\<rparr>, \<lparr>Key = [], Val = ''1000''\<rparr>,
             \<lparr>Key = ''PriceMax'', Val = ''1000''\<rparr>], shardState)"
  by (simp add: monitorTerms_def reSearchTerms_examples)

lemma shard_TrimSpace:
  "TrimSpace ''Velium Shard'' = ''Velium Shard''" "TrimSpace ''850'' = ''850''"
  "TrimSpace ''Coinbuddy'' = ''Coinbuddy''"
  by code_simp+

lemma shard_query:
  "queryResult shardNetwork ''6be2eeb8e151c61af564e62ba369a75c'' ts shardState
     = Inr [[''6be2eeb8e151c61af564e62ba369a75c'', ''Velium Shard'', ''850'', ''Coinbuddy'']]"
  by (simp add: queryResult_def shardNetwork_def scrape_def shard_TrimSpace)

lemma shard_rows:
  "otherRows ''6be2eeb8e151c61af564e62ba369a75c'' shardFile
     = [csvHeader, [''be3be65da7a9764a30ea0141ec7c6591'', ''Fabled Earthshaker'', ''70,000'', ''Coinbuddy'']]"
  "rowsFor ''6be2eeb8e151c61af564e62ba369a75c'' shardFile
     = [[''6be2eeb8e151c61af564e62ba369a75c'', ''Velium Shard'', ''900'', ''Baelish'']]"
  by (simp_all add: otherRows_def rowsFor_def shardFile_def hasID_def csvHeader_def)

text \<open>
  C4 (as the code has it). When one pass of the monitor loop for an item runs to its end
  and its query succeeds with \<open>rows\<close>, the monitor file afterwards is what the CSV
  reader returns for the rows it held for other IDs, in their order, followed by
  \<open>rows\<close>; its rows for the derived ID of the item are exactly \<open>rows\<close>. Every row
  of another ID that reads back as it was written (it is not an empty line, and no cell
  of it holds a carriage return directly before a line feed) is still there, unchanged
  and in the same order; when all of them do, the rows of other IDs are unchanged
  altogether. The rows of the item's ID are removed before the query: the file that
  \<open>deleteFromMonitorCSV\<close> leaves has none of them. The header row is among the rows
  kept as they are, since it reads back as written and no derived ID (32 hexadecimal
  digits) is the text QueryID.
\<close>

theorem monitor_step_replaces_rows:
  assumes "processMonitorItem net md5Sum (key, val) st = Inr st'"
    and "monitorTerms key val st = Inr (ts, st1)"
    and "queryResult net (hexHash md5Sum key) ts st = Inr rows"
  shows "monitorResultsFile st'
           = otherRows (hexHash md5Sum key) (readRecords (monitorResultsFile st)) @ rows
         \<and> rowsFor (hexHash md5Sum key) (monitorResultsFile st') = rows
         \<and> otherRows (hexHash md5Sum key) (monitorResultsFile st')
             = readRecords (otherRows (hexHash md5Sum key) (monitorResultsFile st))
         \<and> subseq (filter readsBack (otherRows (hexHash md5Sum key) (monitorResultsFile st)))
               (otherRows (hexHash md5Sum key) (monitorResultsFile st'))
         \<and> (list_all readsBack (otherRows (hexHash md5Sum key) (monitorResultsFile st)) \<longrightarrow>
               monitorResultsFile st'
                 = otherRows (hexHash md5Sum key) (monitorResultsFile st) @ rows)
         \<and> (\<exists>st2. deleteFromMonitorCSV (hexHash md5Sum key) st1 = Inr st2
               \<and> rowsFor (hexHash md5Sum key) (monitorResultsFile st2) = []
               \<and> monitorResultsFile st' = monitorResultsFile st2 @ rows)
         \<and> readsBack csvHeader \<and> \<not> hasID (hexHash md5Sum key) csvHeader
         \<and> (\<forall>rest. monitorResultsFile st = csvHeader # rest \<longrightarrow>
               monitorResultsFile st'
                 = csvHeader # otherRows (hexHash md5Sum key) (readRecords rest) @ rows)"
proof -
  let ?id = "hexHash md5Sum key"
  let ?old = "monitorResultsFile st"
  from processMonitorItem_parts [OF assms(1,2)] assms(3)
  obtain st2 st3 where d: "deleteFromMonitorCSV ?id st1 = Inr st2"
    and s2: "st2 = st1\<lparr>monitorResultsFile := otherRows ?id (readRecords ?old)\<rparr>"
    and s3: "st3 = snd (queryBazaar net ?id ts st2)"
    and s': "st' = logmsg InfoLevel ''Wrote rows to monitor results CSV'' (writeMonitorCSV rows st3)"
    by auto
  have m: "monitorResultsFile st' = otherRows ?id (readRecords ?old) @ rows"
    by (simp add: s' s3 s2 logmsg_def writeMonitorCSV_def queryBazaar_snd)
  have h: "list_all (hasID ?id) rows" using assms(3) by (rule queryResult_hasID)
  have a: "rowsFor ?id (monitorResultsFile st') = rows"
    using rowsFor_all [OF h] rowsFor_otherRows [of ?id "readRecords ?old"]
    by (simp add: m rowsFor_def)
  have "otherRows ?id (monitorResultsFile st') = otherRows ?id (readRecords ?old)"
    using otherRows_all [OF h] by (simp add: m otherRows_def)
  also have "\<dots> = readRecords (otherRows ?id ?old)"
    by (rule otherRows_read [OF hexHash_LF])
  finally have b: "otherRows ?id (monitorResultsFile st') = readRecords (otherRows ?id ?old)" .
  have c: "subseq (filter readsBack (otherRows ?id ?old)) (otherRows ?id (monitorResultsFile st'))"
    unfolding b by (rule readRecords_subseq)
  have e: "monitorResultsFile st' = otherRows ?id ?old @ rows"
    if "list_all readsBack (otherRows ?id ?old)"
    using readRecords_same [OF that] otherRows_read [OF hexHash_LF, of md5Sum key ?old]
    by (simp add: m)
  have f: "\<exists>st2. deleteFromMonitorCSV ?id st1 = Inr st2
               \<and> rowsFor ?id (monitorResultsFile st2) = []
               \<and> monitorResultsFile st' = monitorResultsFile st2 @ rows"
    using d s2 m by (simp add: rowsFor_otherRows)
  have g: "readsBack csvHeader" by (simp add: readsBack_def csvHeader_def emptyLine_def)
  note g' = hexHash_not_header [of md5Sum key]
  have i: "\<forall>rest. ?old = csvHeader # rest \<longrightarrow>
               monitorResultsFile st' = csvHeader # otherRows ?id (readRecords rest) @ rows"
    using m g g' by (simp add: otherRows_def readRecords_Cons)
  from m a b c e f g g' i show ?thesis by blast
qed

theorem monitor_step_replaces_rows_witness:
  "\<exists>st'. processMonitorItem shardNetwork shardSum (''Velium Shard'', ''Price|1000/Compare|<'') shardState
           = Inr st'
       \<and> monitorTerms ''Velium Shard'' ''Price|1000/Compare|<'' shardState
           = Inr ([\<lparr>Key = ''Name'', Val = ''Velium Shard''\<rparr>, \<lparr>Key = [], Val = ''1000''\<rparr>,
                   \<lparr>Key = ''PriceMax'', Val = ''1000''\<rparr>], shardState)
       \<and> queryResult shardNetwork (hexHash shardSum ''Velium Shard'')
            [\<lparr>Key = ''Name'', Val = ''Velium Shard''\<rparr>, \<lparr>Key = [], Val = ''1000''\<rparr>,
             \<lparr>Key = ''PriceMax'', Val = ''1000''\<rparr>] shardState
           = Inr [[''6be2eeb8e151c61af564e62ba369a75c'', ''Velium Shard'', ''850'', ''Coinbuddy'']]
       \<and> monitorResultsFile st'
           = [csvHeader,
              [''be3be65da7a9764a30ea0141ec7c6591'', ''Fabled Earthshaker'', ''70,000'', ''Coinbuddy''],
              [''6be2eeb8e151c61af564e62ba369a75c'', ''Velium Shard'', ''850'', ''Coinbuddy'']]
       \<and> rowsFor (hexHash shardSum ''Velium Shard'') (monitorResultsFile st')
           = [[''6be2eeb8e151c61af564e62ba369a75c'', ''Velium Shard'', ''850'', ''Coinbuddy'']]"
proof -
  obtain st' where 1: "processMonitorItem shardNetwork shardSum
      (''Velium Shard'', ''Price|1000/Compare|<'') shardState = Inr st'"
    using shard_step_total by blast
  note 2 = shard_terms
  have 3: "queryResult shardNetwork (hexHash shardSum ''Velium Shard'')
            [\<lparr>Key = ''Name'', Val = ''Velium Shard''\<rparr>, \<lparr>Key = [], Val = ''1000''\<rparr>,
             \<lparr>Key = ''PriceMax'', Val = ''1000''\<rparr>] shardState
           = Inr [[''6be2eeb8e151c61af564e62ba369a75c'', ''Velium Shard'', ''850'', ''Coinbuddy'']]"
    by (simp add: shardSum_hex shard_query)
  from monitor_step_replaces_rows [OF 1 2 3]
  have "monitorResultsFile st'
           = [csvHeader,
              [''be3be65da7a9764a30ea0141ec7c6591'', ''Fabled Earthshaker'', ''70,000'', ''Coinbuddy''],
              [''6be2eeb8e151c61af564e62ba369a75c'', ''Velium Shard'', ''850'', ''Coinbuddy'']]
       \<and> rowsFor (hexHash shardSum ''Velium Shard'') (monitorResultsFile st')
           = [[''6be2eeb8e151c61af564e62ba369a75c'', ''Velium Shard'', ''850'', ''Coinbuddy'']]"
    by (simp add: shardSum_hex shardFile_read shard_rows shardState_def rowsFor_def hasID_def
        csvHeader_def)
  with 1 2 3 show ?thesis by blast
qed

text \<open>
  C4 as the specification words it says that every row of another ID is still present,
  unchanged. A row of another item with a carriage return and a line feed in a cell is
  in the file before the pass; after the pass the file has that row without the carriage
  return, and the row as it was is gone.
\<close>

theorem monitor_other_row_counterexample:
  "[''be3be65da7a9764a30ea0141ec7c6591'', ''Fabled'' @ [CHR 0x0D, CHR 0x0A] @ ''Earthshaker'',
    ''70,000'', ''Coinbuddy''] \<in> set (monitorResultsFile crlfState)
   \<and> map_sum id monitorResultsFile
        (processMonitorItem shardNetwork shardSum (''Velium Shard'', ''Price|1000/Compare|<'') crlfState)
     = Inr [csvHeader,
            [''be3be65da7a9764a30ea0141ec7c6591'', ''Fabled'' @ [CHR 0x0A] @ ''Earthshaker'',
             ''70,000'', ''Coinbuddy''],
            [''6be2eeb8e151c61af564e62ba369a75c'', ''Velium Shard'', ''850'', ''Coinbuddy'']]"
  by code_simp

lemma raggedFile_read: "readRecords raggedFile = raggedFile"
  by code_simp

text \<open>
  A monitor file in which some record has another number of fields than the first
  one ends the process at the next pass of the monitor loop: \<open>ReadAll\<close> returns an
  error and \<open>deleteFromMonitorCSV\<close> logs it with \<open>log.Fatal\<close>. Such a file arises
  when a scraped table row has more or fewer than three cells.
\<close>

theorem ragged_monitor_file_fatal:
  "readRecords (monitorResultsFile st) = first # rows
     \<and> \<not> list_all (\<lambda>r. length r = length first) rows \<longrightarrow>
     processMonitorItem net md5Sum item st = Inl (Fatal ''Error reading monitor results file'')"
proof
  assume a: "readRecords (monitorResultsFile st) = first # rows
     \<and> \<not> list_all (\<lambda>r. length r = length first) rows"
  obtain ts st1 where t: "monitorTerms (fst item) (snd item) st = Inr (ts, st1)"
    and f: "monitorResultsFile st1 = monitorResultsFile st"
    using monitorTerms_total [of "fst item" "snd item" st] by blast
  from a f have "csvReadAll (monitorResultsFile st1) = Inl (Fatal ''Error reading monitor results file'')"
    by (simp add: csvReadAll_def)
  with t show "processMonitorItem net md5Sum item st = Inl (Fatal ''Error reading monitor results file'')"
    by (simp add: processMonitorItem_def deleteFromMonitorCSV_def)
qed

theorem ragged_monitor_file_fatal_witness:
  "readRecords (monitorResultsFile ((initial [] [])\<lparr>monitorResultsFile := raggedFile\<rparr>))
     = csvHeader # [[''6be2eeb8e151c61af564e62ba369a75c'', ''Velium Shard'', ''900'']]
   \<and> \<not> list_all (\<lambda>r. length r = length csvHeader)
         [[''6be2eeb8e151c61af564e62ba369a75c'', ''Velium Shard'', ''900'']]
   \<and> processMonitorItem shardNetwork shardSum (''Velium Shard'', ''Price|1000/Compare|<'')
        ((initial [] [])\<lparr>monitorResultsFile := raggedFile\<rparr>)
      = Inl (Fatal ''Error reading monitor results file'')"
  using ragged_monitor_file_fatal [of "(initial [] [])\<lparr>monitorResultsFile := raggedFile\<rparr>"
      csvHeader "[[''6be2eeb8e151c61af564e62ba369a75c'', ''Velium Shard'', ''900'']]"
      shardNetwork shardSum "(''Velium Shard'', ''Price|1000/Compare|<'')"]
  by (simp add: raggedFile_read) (simp add: raggedFile_def csvHeader_def)

lemma processMonitorItem_search:
  assumes "processMonitorItem net md5Sum item st = Inr st'"
  shows "searchQueries st' = searchQueries st \<and> searchResultsFile st' = searchResultsFile st"
proof -
  obtain key val where i: "item = (key, val)" by (cases item)
  from monitorTerms_total [of key val st] obtain ts st1
    where t: "monitorTerms key val st = Inr (ts, st1)"
      and f: "searchQueries st1 = searchQueries st" "searchResultsFile st1 = searchResultsFile st"
    by blast
  from processMonitorItem_parts [OF assms [unfolded i] t] obtain st2 st3
    where s2: "st2 = st1\<lparr>monitorResultsFile :=
                        otherRows (hexHash md5Sum key) (readRecords (monitorResultsFile st))\<rparr>"
      and s3: "st3 = snd (queryBazaar net (hexHash md5Sum key) ts st2)"
      and s': "st' = (case queryResult net (hexHash md5Sum key) ts st of
                      Inl err \<Rightarrow> logmsg ErrorLevel ''Error querying Bazaar'' st3
                    | Inr rows \<Rightarrow> logmsg InfoLevel ''Wrote rows to monitor results CSV''
                                   (writeMonitorCSV rows st3))"
    by blast
  have "searchQueries st3 = searchQueries st \<and> searchResultsFile st3 = searchResultsFile st"
    by (simp add: s3 s2 queryBazaar_snd f)
  then show ?thesis
    by (simp add: s' logmsg_def writeMonitorCSV_def split: sum.split)
qed

lemma monitorItemsLoop_search:
  "monitorItemsLoop net md5Sum items st = Inr st' \<Longrightarrow>
     searchQueries st' = searchQueries st \<and> searchResultsFile st' = searchResultsFile st"
proof (induction items arbitrary: st)
  case Nil
  then show ?case by simp
next
  case (Cons item items)
  from Cons.prems obtain st1 where 1: "processMonitorItem net md5Sum item st = Inr st1"
    and 2: "monitorItemsLoop net md5Sum items st1 = Inr st'"
    by (auto split: sum.splits)
  from processMonitorItem_search [OF 1] Cons.IH [OF 2] show ?case by simp
qed

lemma poll_search:
  "processMonitorItems net md5Sum st = Inr st' \<Longrightarrow>
     searchQueries st' = searchQueries st \<and> searchResultsFile st' = searchResultsFile st"
  unfolding processMonitorItems_def by (rule monitorItemsLoop_search)

subsection \<open>The monitor file over the life of the process\<close>

lemma processMonitorItem_effect:
  assumes "processMonitorItem net md5Sum item st = Inr st'"
  shows "\<exists>f. fst f = hexHash md5Sum (fst item)
           \<and> fetches st' = fetches st @ [f]
           \<and> monitorResultsFile st'
               = otherRows (fst f) (readRecords (monitorResultsFile st))
                 @ loadRows net (length (fetches st)) f"
proof -
  obtain key val where i: "item = (key, val)" by (cases item)
  let ?id = "hexHash md5Sum key"
  from monitorTerms_total [of key val st] obtain ts st1
    where t: "monitorTerms key val st = Inr (ts, st1)" and f1: "fetches st1 = fetches st"
    by blast
  from processMonitorItem_parts [OF assms [unfolded i] t] obtain st2 st3
    where s2: "st2 = st1\<lparr>monitorResultsFile :=
                        otherRows ?id (readRecords (monitorResultsFile st))\<rparr>"
      and s3: "st3 = snd (queryBazaar net ?id ts st2)"
      and s': "st' = (case queryResult net ?id ts st of
                      Inl err \<Rightarrow> logmsg ErrorLevel ''Error querying Bazaar'' st3
                    | Inr rows \<Rightarrow> logmsg InfoLevel ''Wrote rows to monitor results CSV''
                                   (writeMonitorCSV rows st3))"
    by blast
  have a: "fetches st3 = fetches st @ [(?id, buildURL ts)]"
    "monitorResultsFile st3 = otherRows ?id (readRecords (monitorResultsFile st))"
    by (simp_all add: s3 s2 queryBazaar_snd f1)
  have b: "fetches st' = fetches st @ [(?id, buildURL ts)]"
    using a by (simp add: s' logmsg_def writeMonitorCSV_def split: sum.split)
  have c: "monitorResultsFile st'
             = monitorResultsFile st3 @ rowsOrNone (queryResult net ?id ts st)"
    by (simp add: s' logmsg_def writeMonitorCSV_def rowsOrNone_def split: sum.split)
  have "fst (?id, buildURL ts) = hexHash md5Sum (fst item)
           \<and> fetches st' = fetches st @ [(?id, buildURL ts)]
           \<and> monitorResultsFile st'
               = otherRows (fst (?id, buildURL ts)) (readRecords (monitorResultsFile st))
                 @ loadRows net (length (fetches st)) (?id, buildURL ts)"
    using a b c by (simp add: i queryResult_loadRows)
  then show ?thesis by (rule exI)
qed

lemma processMonitorItem_none:
  assumes "processMonitorItem net md5Sum item st = Inr st'"
    and "CHR 0x0A \<notin> set i" and "rowsFor i (monitorResultsFile st) = []"
    and "rowsFor i (loadsRows net (length (fetches st)) (newFetches st st')) = []"
  shows "rowsFor i (monitorResultsFile st') = []"
proof -
  from processMonitorItem_effect [OF assms(1)] obtain f
    where a: "fetches st' = fetches st @ [f]"
      and b: "monitorResultsFile st'
               = otherRows (fst f) (readRecords (monitorResultsFile st))
                 @ loadRows net (length (fetches st)) f"
    by blast
  from a have "newFetches st st' = [f]" by (rule newFetches_append)
  with assms(4) have "rowsFor i (loadRows net (length (fetches st)) f) = []" by simp
  with readRecords_none [OF assms(2,3)] show ?thesis by (simp add: b rowsFor_append)
qed

lemma monitorItemsLoop_fetches:
  "monitorItemsLoop net md5Sum items st = Inr st' \<Longrightarrow> \<exists>F. fetches st' = fetches st @ F"
proof (induction items arbitrary: st)
  case Nil
  then show ?case by simp
next
  case (Cons item items)
  from Cons.prems obtain s1 where 1: "processMonitorItem net md5Sum item st = Inr s1"
    and 2: "monitorItemsLoop net md5Sum items s1 = Inr st'"
    by (auto split: sum.splits)
  from processMonitorItem_effect [OF 1] obtain f where "fetches s1 = fetches st @ [f]"
    by blast
  with Cons.IH [OF 2] show ?case by auto
qed

lemma monitorItemsLoop_none:
  assumes "monitorItemsLoop net md5Sum items st = Inr st'"
    and "CHR 0x0A \<notin> set i" and "rowsFor i (monitorResultsFile st) = []"
    and "rowsFor i (loadsRows net (length (fetches st)) (newFetches st st')) = []"
  shows "rowsFor i (monitorResultsFile st') = []"
  using assms
proof (induction items arbitrary: st)
  case Nil
  then show ?case by simp
next
  case (Cons item items)
  from Cons.prems(1) obtain s1 where 1: "processMonitorItem net md5Sum item st = Inr s1"
    and 2: "monitorItemsLoop net md5Sum items s1 = Inr st'"
    by (auto split: sum.splits)
  from processMonitorItem_effect [OF 1] obtain f where a: "fetches s1 = fetches st @ [f]"
    by blast
  from monitorItemsLoop_fetches [OF 2] obtain F where b: "fetches st' = fetches s1 @ F"
    by blast
  from Cons.prems(4) loadsRows_split [OF a b, of net]
  have c: "rowsFor i (loadsRows net (length (fetches st)) (newFetches st s1)) = []"
    and d: "rowsFor i (loadsRows net (length (fetches s1)) (newFetches s1 st')) = []"
    by (simp_all add: rowsFor_append)
  from processMonitorItem_none [OF 1 Cons.prems(2,3) c]
  have "rowsFor i (monitorResultsFile s1) = []" .
  from Cons.IH [OF 2 Cons.prems(2) this d] show ?case .
qed

lemma processMonitorFile_monitor:
  assumes "processMonitorFile net loaded st = Inr st'"
  shows "monitorResultsFile st' = monitorResultsFile st"
proof -
  have r: "monitorResultsFile s' = monitorResultsFile s"
    if "registerAndSearch net cfg s = Inr s'" for cfg s s'
    using registerAndSearch_frame [of net cfg s] that by auto
  from assms show ?thesis
    by (auto simp add: processMonitorFile_def logmsg_def Let_def
        split: option.splits if_splits dest!: r)
qed

lemma step_fetches:
  assumes "step net md5Sum e st = Inr st'"
  shows "\<exists>F. fetches st' = fetches st @ F"
proof (cases e)
  case (Reload loaded)
  with assms have "processMonitorFile net loaded st = Inr st'" by simp
  from reload_effect [OF this] obtain Rs
    where "searchEffect (searchKeys loaded) st st' (newFetches st st') Rs" by blast
  from searchEffectD(1) [OF this] show ?thesis by blast
next
  case Poll
  with assms show ?thesis by (simp add: processMonitorItems_def monitorItemsLoop_fetches)
qed

lemma run_fetches:
  "run net md5Sum es st = Inr st' \<Longrightarrow> \<exists>F. fetches st' = fetches st @ F"
proof (induction es arbitrary: st)
  case Nil
  then show ?case by simp
next
  case (Cons e es)
  from Cons.prems obtain s1 where 1: "step net md5Sum e st = Inr s1"
    and 2: "run net md5Sum es s1 = Inr st'"
    by (auto split: sum.splits)
  from step_fetches [OF 1] Cons.IH [OF 2] show ?case by auto
qed

lemma step_none:
  assumes "step net md5Sum e st = Inr st'"
    and "CHR 0x0A \<notin> set i" and "rowsFor i (monitorResultsFile st) = []"
    and "rowsFor i (loadsRows net (length (fetches st)) (newFetches st st')) = []"
  shows "rowsFor i (monitorResultsFile st') = []"
proof (cases e)
  case (Reload loaded)
  with assms(1) have "processMonitorFile net loaded st = Inr st'" by simp
  from processMonitorFile_monitor [OF this] assms(3) show ?thesis by simp
next
  case Poll
  with assms(1) have "monitorItemsLoop net md5Sum (monitorQueries st) st = Inr st'"
    by (simp add: processMonitorItems_def)
  from monitorItemsLoop_none [OF this assms(2,3,4)] show ?thesis .
qed

lemma run_none:
  assumes "run net md5Sum es st = Inr st'"
    and "CHR 0x0A \<notin> set i" and "rowsFor i (monitorResultsFile st) = []"
    and "rowsFor i (loadsRows net (length (fetches st)) (newFetches st st')) = []"
  shows "rowsFor i (monitorResultsFile st') = []"
  using assms
proof (induction es arbitrary: st)
  case Nil
  then show ?case by simp
next
  case (Cons e es)
  from Cons.prems(1) obtain s1 where 1: "step net md5Sum e st = Inr s1"
    and 2: "run net md5Sum es s1 = Inr st'"
    by (auto split: sum.splits)
  from step_fetches [OF 1] obtain F1 where a: "fetches s1 = fetches st @ F1" by blast
  from run_fetches [OF 2] obtain F2 where b: "fetches st' = fetches s1 @ F2" by blast
  from Cons.prems(4) loadsRows_split [OF a b, of net]
  have c: "rowsFor i (loadsRows net (length (fetches st)) (newFetches st s1)) = []"
    and d: "rowsFor i (loadsRows net (length (fetches s1)) (newFetches s1 st')) = []"
    by (simp_all add: rowsFor_append)
  from step_none [OF 1 Cons.prems(2,3) c] have "rowsFor i (monitorResultsFile s1) = []" .
  from Cons.IH [OF 2 Cons.prems(2) this d] show ?case .
qed

text \<open>
  C2 (as the code has it). The rows of the item are deleted before the query is
  made. When one pass of the monitor loop for an item runs to its end and its query
  returns an error, no row is written for the item: the monitor file afterwards is what
  \<open>deleteFromMonitorCSV\<close> left, the rows of the other IDs as the CSV reader returns
  them, and it has no row for the derived ID of the item. It has none either after any
  run of reloads and polls that follows, as long as no load made in that run brings a
  row with that ID.
\<close>

theorem monitor_step_failed_query:
  assumes "processMonitorItem net md5Sum (key, val) st = Inr st'"
    and "monitorTerms key val st = Inr (ts, st1)"
    and "queryResult net (hexHash md5Sum key) ts st = Inl err"
  shows "monitorResultsFile st'
           = otherRows (hexHash md5Sum key) (readRecords (monitorResultsFile st))
         \<and> rowsFor (hexHash md5Sum key) (monitorResultsFile st') = []
         \<and> (\<exists>st2. deleteFromMonitorCSV (hexHash md5Sum key) st1 = Inr st2
               \<and> rowsFor (hexHash md5Sum key) (monitorResultsFile st2) = []
               \<and> monitorResultsFile st' = monitorResultsFile st2)
         \<and> (run net md5Sum es st' = Inr st''
               \<and> rowsFor (hexHash md5Sum key)
                     (loadsRows net (length (fetches st')) (newFetches st' st'')) = [] \<longrightarrow>
             rowsFor (hexHash md5Sum key) (monitorResultsFile st'') = [])"
proof -
  let ?id = "hexHash md5Sum key"
  from processMonitorItem_parts [OF assms(1,2)] assms(3)
  obtain st2 st3 where d: "deleteFromMonitorCSV ?id st1 = Inr st2"
    and s2: "st2 = st1\<lparr>monitorResultsFile :=
                        otherRows ?id (readRecords (monitorResultsFile st))\<rparr>"
    and s3: "st3 = snd (queryBazaar net ?id ts st2)"
    and s': "st' = logmsg ErrorLevel ''Error querying Bazaar'' st3"
    by auto
  have m: "monitorResultsFile st' = otherRows ?id (readRecords (monitorResultsFile st))"
    by (simp add: s' s3 s2 logmsg_def queryBazaar_snd)
  then have a: "rowsFor ?id (monitorResultsFile st') = []" by (simp add: rowsFor_otherRows)
  have b: "\<exists>st2. deleteFromMonitorCSV ?id st1 = Inr st2
               \<and> rowsFor ?id (monitorResultsFile st2) = []
               \<and> monitorResultsFile st' = monitorResultsFile st2"
    using d s2 m by (simp add: rowsFor_otherRows)
  have c: "rowsFor ?id (monitorResultsFile st'') = []"
    if "run net md5Sum es st' = Inr st''"
      and "rowsFor ?id (loadsRows net (length (fetches st')) (newFetches st' st'')) = []"
    using that(1) hexHash_LF a that(2) by (rule run_none)
  from m a b c show ?thesis by blast
qed

lemma afterFailure_example:
  "(case processMonitorItem flakyNetwork shardSum (''Velium Shard'', ''Price|1000/Compare|<'')
          shardQueued of
      Inl f \<Rightarrow> False
    | Inr st' \<Rightarrow>
        (case run flakyNetwork shardSum afterFailure st' of
           Inl f \<Rightarrow> False
         | Inr st'' \<Rightarrow>
             rowsFor ''6be2eeb8e151c61af564e62ba369a75c''
               (loadsRows flakyNetwork (length (fetches st')) (newFetches st' st'')) = []
             \<and> map fst (newFetches st' st'') = [''00000000000000000000000000000000'', ''q1'', ''q2'']
             \<and> length (monitorResultsFile st'') = 4))"
  by code_simp

lemma shardQueued_terms:
  "monitorTerms ''Velium Shard'' ''Price|1000/Compare|<'' shardQueued
     = Inr ([\<lparr>Key = ''Name'', Val = ''Velium Shard''\<rparr>, \<lparr>Key = [], Val = ''1000''\<rparr>,
             \<lparr>Key = ''PriceMax'', Val = ''1000''\<rparr>], shardQueued)"
  by (simp add: monitorTerms_def reSearchTerms_examples)

theorem monitor_step_failed_query_witness:
  "\<exists>st' st''. processMonitorItem flakyNetwork shardSum (''Velium Shard'', ''Price|1000/Compare|<'')
              shardQueued = Inr st'
       \<and> monitorTerms ''Velium Shard'' ''Price|1000/Compare|<'' shardQueued
           = Inr ([\<lparr>Key = ''Name'', Val = ''Velium Shard''\<rparr>, \<lparr>Key = [], Val = ''1000''\<rparr>,
                   \<lparr>Key = ''PriceMax'', Val = ''1000''\<rparr>], shardQueued)
       \<and> queryResult flakyNetwork (hexHash shardSum ''Velium Shard'')
            [\<lparr>Key = ''Name'', Val = ''Velium Shard''\<rparr>, \<lparr>Key = [], Val = ''1000''\<rparr>,
             \<lparr>Key = ''PriceMax'', Val = ''1000''\<rparr>] shardQueued
           = Inl LoadURLError
       \<and> monitorResultsFile st'
           = [csvHeader,
              [''be3be65da7a9764a30ea0141ec7c6591'', ''Fabled Earthshaker'', ''70,000'', ''Coinbuddy'']]
       \<and> rowsFor (hexHash shardSum ''Velium Shard'') (monitorResultsFile st') = []
       \<and> run flakyNetwork shardSum afterFailure st' = Inr st''
       \<and> rowsFor (hexHash shardSum ''Velium Shard'')
             (loadsRows flakyNetwork (length (fetches st')) (newFetches st' st'')) = []
       \<and> map fst (newFetches st' st'') = [''00000000000000000000000000000000'', ''q1'', ''q2'']
       \<and> length (monitorResultsFile st'') = 4
       \<and> rowsFor (hexHash shardSum ''Velium Shard'') (monitorResultsFile st'') = []"
proof -
  let ?item = "(''Velium Shard'', ''Price|1000/Compare|<'')"
  obtain st' where 1: "processMonitorItem flakyNetwork shardSum ?item shardQueued = Inr st'"
    using afterFailure_example
    by (cases "processMonitorItem flakyNetwork shardSum ?item shardQueued") simp_all
  obtain st'' where 4: "run flakyNetwork shardSum afterFailure st' = Inr st''"
    using afterFailure_example 1
    by (cases "run flakyNetwork shardSum afterFailure st'") simp_all
  from afterFailure_example 1 4
  have 5: "rowsFor (hexHash shardSum ''Velium Shard'')
             (loadsRows flakyNetwork (length (fetches st')) (newFetches st' st'')) = []"
    and 6: "map fst (newFetches st' st'') = [''00000000000000000000000000000000'', ''q1'', ''q2'']"
    and 7: "length (monitorResultsFile st'') = 4"
    by (simp_all add: shardSum_hex)
  note 2 = shardQueued_terms
  have 3: "queryResult flakyNetwork (hexHash shardSum ''Velium Shard'')
            [\<lparr>Key = ''Name'', Val = ''Velium Shard''\<rparr>, \<lparr>Key = [], Val = ''1000''\<rparr>,
             \<lparr>Key = ''PriceMax'', Val = ''1000''\<rparr>] shardQueued
           = Inl LoadURLError"
    by (simp add: queryResult_def flakyNetwork_def shardQueued_def shardState_def initial_def)
  note t = monitor_step_failed_query [OF 1 2 3, of afterFailure st'']
  note t1 = conjunct1 [OF t] and t2 = conjunct1 [OF conjunct2 [OF t]]
    and t4 = conjunct2 [OF conjunct2 [OF conjunct2 [OF t]]]
  from t1 have 8: "monitorResultsFile st'
           = [csvHeader,
              [''be3be65da7a9764a30ea0141ec7c6591'', ''Fabled Earthshaker'', ''70,000'', ''Coinbuddy'']]"
    by (simp add: shardSum_hex shardFile_read shard_rows shardQueued_def shardState_def)
  note 9 = t2
  from t4 4 5 have 10: "rowsFor (hexHash shardSum ''Velium Shard'') (monitorResultsFile st'') = []"
    by simp
  have "processMonitorItem flakyNetwork shardSum ?item shardQueued = Inr st'
       \<and> monitorTerms ''Velium Shard'' ''Price|1000/Compare|<'' shardQueued
           = Inr ([\<lparr>Key = ''Name'', Val = ''Velium Shard''\<rparr>, \<lparr>Key = [], Val = ''1000''\<rparr>,
                   \<lparr>Key = ''PriceMax'', Val = ''1000''\<rparr>], shardQueued)
       \<and> queryResult flakyNetwork (hexHash shardSum ''Velium Shard'')
            [\<lparr>Key = ''Name'', Val = ''Velium Shard''\<rparr>, \<lparr>Key = [], Val = ''1000''\<rparr>,
             \<lparr>Key = ''PriceMax'', Val = ''1000''\<rparr>] shardQueued
           = Inl LoadURLError
       \<and> monitorResultsFile st'
           = [csvHeader,
              [''be3be65da7a9764a30ea0141ec7c6591'', ''Fabled Earthshaker'', ''70,000'', ''Coinbuddy'']]
       \<and> rowsFor (hexHash shardSum ''Velium Shard'') (monitorResultsFile st') = []
       \<and> run flakyNetwork shardSum afterFailure st' = Inr st''
       \<and> rowsFor (hexHash shardSum ''Velium Shard'')
             (loadsRows flakyNetwork (length (fetches st')) (newFetches st' st'')) = []
       \<and> map fst (newFetches st' st'') = [''00000000000000000000000000000000'', ''q1'', ''q2'']
       \<and> length (monitorResultsFile st'') = 4
       \<and> rowsFor (hexHash shardSum ''Velium Shard'') (monitorResultsFile st'') = []"
    by (intro conjI 1 2 3 8 9 4 5 6 7 10)
  then show ?thesis by (intro exI)
qed

text \<open>
  C2 as the specification words it says that after a failed query the rows of the
  item are those it had before. With a network that fails, the item's row is gone after
  the pass.
\<close>

theorem monitor_failed_query_counterexample:
  "rowsFor ''6be2eeb8e151c61af564e62ba369a75c'' (monitorResultsFile shardState)
     = [[''6be2eeb8e151c61af564e62ba369a75c'', ''Velium Shard'', ''900'', ''Baelish'']]
   \<and> map_sum id (\<lambda>st'. rowsFor ''6be2eeb8e151c61af564e62ba369a75c'' (monitorResultsFile st'))
        (processMonitorItem deadNetwork shardSum (''Velium Shard'', ''Price|1000/Compare|<'') shardState)
     = Inr []"
  by code_simp

section \<open>The search store and the search cache over the life of the process\<close>

lemma cached_run:
  assumes "run net md5Sum es st = Inr st'" and "getSearchQuery i st \<noteq> []"
  shows "searchQueries st' i = searchQueries st i
         \<and> list_all (\<lambda>f. fst f \<noteq> i) (reloadFetches net md5Sum es st)
         \<and> rowsFor i (searchResultsFile st') = rowsFor i (searchResultsFile st)"
  using assms
proof (induction es arbitrary: st)
  case Nil
  then show ?case by simp
next
  case (Cons e es)
  from Cons.prems(1) obtain st1 where s: "step net md5Sum e st = Inr st1"
    and r: "run net md5Sum es st1 = Inr st'"
    by (auto split: sum.splits)
  show ?case
  proof (cases e)
    case (Reload loaded)
    with s have p: "processMonitorFile net loaded st = Inr st1" by simp
    from reload_effect [OF p] obtain Rs
      where e: "searchEffect (searchKeys loaded) st st1 (newFetches st st1) Rs" by blast
    note a = cached_effect [OF e Cons.prems(2)]
    from a Cons.prems(2) have c1: "getSearchQuery i st1 \<noteq> []" by (simp add: getSearchQuery_def)
    note b = Cons.IH [OF r c1]
    from a b s Reload show ?thesis by simp
  next
    case Poll
    with s have p: "processMonitorItems net md5Sum st = Inr st1" by simp
    note a = poll_search [OF p]
    from a Cons.prems(2) have c1: "getSearchQuery i st1 \<noteq> []" by (simp add: getSearchQuery_def)
    note b = Cons.IH [OF r c1]
    from a b s Poll show ?thesis by simp
  qed
qed


lemma run_prefix:
  "run net md5Sum es st = Inr st' \<Longrightarrow> prefix (searchResultsFile st) (searchResultsFile st')"
proof (induction es arbitrary: st)
  case Nil
  then show ?case by simp
next
  case (Cons e es)
  from Cons.prems obtain st1 where s: "step net md5Sum e st = Inr st1"
    and r: "run net md5Sum es st1 = Inr st'"
    by (auto split: sum.splits)
  have "prefix (searchResultsFile st) (searchResultsFile st1)"
  proof (cases e)
    case (Reload loaded)
    with s have p: "processMonitorFile net loaded st = Inr st1" by simp
    from reload_effect [OF p] obtain Rs
      where e: "searchEffect (searchKeys loaded) st st1 (newFetches st st1) Rs" by blast
    from searchEffectD(2) [OF e] show ?thesis by simp
  next
    case Poll
    with s have p: "processMonitorItems net md5Sum st = Inr st1" by simp
    from poll_search [OF p] show ?thesis by simp
  qed
  from this Cons.IH [OF r] show ?case by (rule prefix_order.trans)
qed



lemma run_example:
  "(case run swordNetwork shardSum [Reload (Some (queriesConfig earthshakerKeys)), Poll]
           (initial [csvHeader] [csvHeader]) of
      Inl f \<Rightarrow> False | Inr st' \<Rightarrow> True)"
  by code_simp

lemma processSearchQueries_rows:
  "processSearchQueries net keys st = Inr st' \<Longrightarrow>
     fetches st' = fetches st @ newFetches st st'
     \<and> searchResultsFile st'
         = searchResultsFile st @ loadsRows net (length (fetches st)) (newFetches st st')
     \<and> (\<exists>ks. subseq ks keys \<and> newFetches st st' = map requestLoad ks)"
proof (induction keys arbitrary: st)
  case Nil
  then have "newFetches st st' = []" by (simp add: newFetches_def)
  with Nil show ?case by simp
next
  case (Cons key keys)
  from Cons.prems obtain s1 where 1: "processSearchQuery net key st = Inr s1"
    and 2: "processSearchQueries net keys s1 = Inr st'"
    by (auto split: sum.splits)
  from Cons.IH [OF 2] obtain ks
    where f: "fetches st' = fetches s1 @ newFetches s1 st'"
      and r: "searchResultsFile st'
         = searchResultsFile s1 @ loadsRows net (length (fetches s1)) (newFetches s1 st')"
      and k: "subseq ks keys" "newFetches s1 st' = map requestLoad ks"
    by blast
  show ?case
  proof (cases "getSearchQuery (fst key) st = []")
    case False
    with 1 have "s1 = st" by (simp add: processSearchQuery_hit)
    with f r k show ?thesis by (auto simp add: list_emb_Cons)
  next
    case True
    from processSearchQuery_miss [OF True, of net] 1 obtain ts
      where t: "searchTermsLoop [] (reSearchTerms (snd key)) = Inr ts"
        and f1: "fetches s1 = fetches st @ [(fst key, buildURL ts)]"
        and r1: "searchResultsFile s1 = searchResultsFile st
                @ rowsOrNone (queryResult net (fst key) ts (updateSearchQueries (fst key) (snd key) st))"
      by auto
    have l: "requestLoad key = (fst key, buildURL ts)" by (simp add: requestLoad_def t)
    from f have "fetches st' = fetches st @ (requestLoad key # newFetches s1 st')"
      by (simp only: f1 l append_assoc append_Cons append_Nil)
    then have n: "newFetches st st' = requestLoad key # newFetches s1 st'"
      by (rule newFetches_append)
    have a: "fetches st' = fetches st @ newFetches st st'"
      using f f1 l n by simp
    have b: "searchResultsFile st'
         = searchResultsFile st @ loadsRows net (length (fetches st)) (newFetches st st')"
      using r r1 f1 l n by (simp add: queryResult_loadRows updateSearchQueries_fields)
    have "subseq (key # ks) (key # keys) \<and> newFetches st st' = map requestLoad (key # ks)"
      using k n by simp
    then have c: "\<exists>ks. subseq ks (key # keys) \<and> newFetches st st' = map requestLoad ks"
      by (rule exI)
    from a b c show ?thesis by simp
  qed
qed

lemma processSearchQueries_loads:
  "processSearchQueries net keys st = Inr st' \<Longrightarrow> distinct (map fst keys) \<Longrightarrow>
     list_all (\<lambda>key. searchQueries st (fst key) \<noteq> Some []) keys \<Longrightarrow>
     newFetches st st'
       = map requestLoad (filter (\<lambda>key. searchQueries st (fst key) = None) keys)"
proof (induction keys arbitrary: st)
  case Nil
  then show ?case by (simp add: newFetches_def)
next
  case (Cons key keys)
  from Cons.prems(1) obtain s1 where 1: "processSearchQuery net key st = Inr s1"
    and 2: "processSearchQueries net keys s1 = Inr st'"
    by (auto split: sum.splits)
  from Cons.prems(2) have d: "distinct (map fst keys)" and nk: "fst key \<notin> fst ` set keys"
    by simp_all
  from Cons.prems(3) have e: "searchQueries st (fst key) \<noteq> Some []"
    and es: "list_all (\<lambda>key. searchQueries st (fst key) \<noteq> Some []) keys"
    by simp_all
  show ?case
  proof (cases "getSearchQuery (fst key) st = []")
    case False
    with 1 have s: "s1 = st" by (simp add: processSearchQuery_hit)
    from False have "searchQueries st (fst key) \<noteq> None"
      by (auto simp add: getSearchQuery_def split: option.splits)
    with Cons.IH [OF 2 d] es s show ?thesis by simp
  next
    case True
    with e have none: "searchQueries st (fst key) = None"
      by (auto simp add: getSearchQuery_def split: option.splits)
    from processSearchQuery_miss [OF True, of net] 1 obtain ts
      where t: "searchTermsLoop [] (reSearchTerms (snd key)) = Inr ts"
        and c1: "searchQueries s1 = (searchQueries st)(fst key \<mapsto> snd key)"
        and f1: "fetches s1 = fetches st @ [(fst key, buildURL ts)]"
      by auto
    have same: "searchQueries s1 (fst k) = searchQueries st (fst k)" if "k \<in> set keys" for k
    proof -
      have "fst k \<noteq> fst key"
      proof
        assume e: "fst k = fst key"
        from that have "fst k \<in> fst ` set keys" by (rule imageI)
        with e have "fst key \<in> fst ` set keys" by simp
        with nk show False by (rule notE)
      qed
      with c1 show ?thesis by simp
    qed
    from es same have es1: "list_all (\<lambda>key. searchQueries s1 (fst key) \<noteq> Some []) keys"
      by (simp add: list_all_iff)
    have fl: "filter (\<lambda>key. searchQueries s1 (fst key) = None) keys
              = filter (\<lambda>key. searchQueries st (fst key) = None) keys"
      by (rule filter_cong) (simp_all add: same)
    from processSearchQueries_rows [OF 2] have f: "fetches st' = fetches s1 @ newFetches s1 st'"
      by simp
    have l: "requestLoad key = (fst key, buildURL ts)" by (simp add: requestLoad_def t)
    from f have "fetches st' = fetches st @ (requestLoad key # newFetches s1 st')"
      by (simp only: f1 l append_assoc append_Cons append_Nil)
    then have n: "newFetches st st' = requestLoad key # newFetches s1 st'"
      by (rule newFetches_append)
    from Cons.IH [OF 2 d es1] n fl none show ?thesis by simp
  qed
qed

lemma registerAndSearch_search:
  assumes "registerAndSearch net cfg st = Inr st'"
  shows "\<exists>s0. fetches s0 = fetches st \<and> searchResultsFile s0 = searchResultsFile st
           \<and> searchQueries s0 = searchQueries st
           \<and> processSearchQueries net (sectionKeys cfg) s0 = Inr st'"
proof (cases "Monitor cfg")
  case None
  with assms have "st' = logmsg InfoLevel ''Queries section does not exist or is empty'' st"
    by (simp add: registerAndSearch_def)
  then have "fetches st' = fetches st \<and> searchResultsFile st' = searchResultsFile st
           \<and> searchQueries st' = searchQueries st
           \<and> processSearchQueries net (sectionKeys cfg) st' = Inr st'"
    using None by (simp add: logmsg_def sectionKeys_def)
  then show ?thesis by (rule exI)
next
  case (Some monitorKeys)
  define st1 where "st1 = fold (\<lambda>key. updateMonitorQuery (fst key) (snd key)) monitorKeys
                       (deleteMonitorQueries st)"
  have f: "fetches st1 = fetches st" "searchResultsFile st1 = searchResultsFile st"
    "searchQueries st1 = searchQueries st"
    by (simp_all add: st1_def registerMonitor_fields deleteMonitorQueries_def)
  show ?thesis
  proof (cases "Queries cfg")
    case None
    with assms Some
    have "st' = logmsg InfoLevel ''Queries section does not exist or is empty'' st1"
      by (simp add: registerAndSearch_def st1_def [symmetric])
    then have "fetches st' = fetches st \<and> searchResultsFile st' = searchResultsFile st
           \<and> searchQueries st' = searchQueries st
           \<and> processSearchQueries net (sectionKeys cfg) st' = Inr st'"
      using None Some f by (simp add: logmsg_def sectionKeys_def)
    then show ?thesis by (rule exI)
  next
    case keys: (Some keys)
    with assms Some have "processSearchQueries net keys st1 = Inr st'"
      by (simp add: registerAndSearch_def st1_def [symmetric])
    with keys Some f
    have "fetches st1 = fetches st \<and> searchResultsFile st1 = searchResultsFile st
           \<and> searchQueries st1 = searchQueries st
           \<and> processSearchQueries net (sectionKeys cfg) st1 = Inr st'"
      by (simp add: sectionKeys_def)
    then show ?thesis by (rule exI)
  qed
qed

lemma processMonitorFile_search:
  assumes "processMonitorFile net loaded st = Inr st'"
  shows "\<exists>s0. fetches s0 = fetches st \<and> searchResultsFile s0 = searchResultsFile st
           \<and> searchQueries s0 = searchQueries st
           \<and> processSearchQueries net (reloadKeys loaded) s0 = Inr st'"
proof -
  from assms obtain cfg where l: "loaded = Some cfg"
    by (cases loaded) (simp_all add: processMonitorFile_def)
  have early: ?thesis
    if "fetches st' = fetches st" "searchResultsFile st' = searchResultsFile st"
      "searchQueries st' = searchQueries st" "reloadKeys loaded = []"
  proof -
    from that have "fetches st' = fetches st \<and> searchResultsFile st' = searchResultsFile st
           \<and> searchQueries st' = searchQueries st
           \<and> processSearchQueries net (reloadKeys loaded) st' = Inr st'"
      by simp
    then show ?thesis by (rule exI)
  qed
  have late: ?thesis
    if "registerAndSearch net cfg s = Inr st'" "fetches s = fetches st"
      "searchResultsFile s = searchResultsFile st" "searchQueries s = searchQueries st"
      "reloadKeys loaded = sectionKeys cfg" for s
    using registerAndSearch_search [OF that(1)] that(2-5) by simp
  show ?thesis
  proof (cases "General cfg")
    case None
    with assms l show ?thesis
      by (intro early) (auto simp add: processMonitorFile_def logmsg_def reloadKeys_def)
  next
    case (Some pollDelay)
    show ?thesis
    proof (cases pollDelay)
      case None
      with assms l Some show ?thesis
        by (intro late [of "logmsg WarnLevel ''Monitor Poll Delay setting does not exist or is empty'' st"])
          (auto simp add: processMonitorFile_def logmsg_def reloadKeys_def)
    next
      case r: (Some r)
      obtain v err where ve: "r = (v, err)" by (cases r)
      show ?thesis
      proof (cases err)
        case True
        with assms l Some r ve show ?thesis
          by (intro early) (auto simp add: processMonitorFile_def logmsg_def reloadKeys_def Let_def)
      next
        case False
        show ?thesis
        proof (cases "v < 60")
          case True
          with assms l Some r ve False show ?thesis
            by (intro late [of "(logmsg WarnLevel
                  ''Monitor Poll Delay cannot be less than 60 seconds. Setting to 60 seconds''
                  (st\<lparr>monitorPollDelay := v\<rparr>))\<lparr>monitorPollDelay := 60\<rparr>"])
              (auto simp add: processMonitorFile_def logmsg_def reloadKeys_def Let_def)
        next
          case ge: False
          with assms l Some r ve False show ?thesis
            by (intro late [of "st\<lparr>monitorPollDelay := v\<rparr>"])
              (auto simp add: processMonitorFile_def logmsg_def reloadKeys_def Let_def)
        qed
      qed
    qed
  qed
qed

lemma reload_rows:
  assumes "processMonitorFile net loaded st = Inr st'"
  shows "fetches st' = fetches st @ newFetches st st'"
    and "searchResultsFile st'
         = searchResultsFile st @ loadsRows net (length (fetches st)) (newFetches st st')"
    and "\<exists>ks. subseq ks (reloadKeys loaded) \<and> newFetches st st' = map requestLoad ks"
    and "distinct (map fst (reloadKeys loaded)) \<Longrightarrow>
         list_all (\<lambda>key. searchQueries st (fst key) \<noteq> Some []) (reloadKeys loaded) \<Longrightarrow>
         newFetches st st'
           = map requestLoad (filter (\<lambda>key. searchQueries st (fst key) = None) (reloadKeys loaded))"
proof -
  from processMonitorFile_search [OF assms] obtain s0
    where f: "fetches s0 = fetches st" and r: "searchResultsFile s0 = searchResultsFile st"
      and c: "searchQueries s0 = searchQueries st"
      and p: "processSearchQueries net (reloadKeys loaded) s0 = Inr st'"
    by blast
  have n: "newFetches s0 st' = newFetches st st'" by (simp add: newFetches_def f)
  from processSearchQueries_rows [OF p]
  show "fetches st' = fetches st @ newFetches st st'"
    and "searchResultsFile st'
         = searchResultsFile st @ loadsRows net (length (fetches st)) (newFetches st st')"
    and "\<exists>ks. subseq ks (reloadKeys loaded) \<and> newFetches st st' = map requestLoad ks"
    by (simp_all add: f r n)
  show "newFetches st st'
           = map requestLoad (filter (\<lambda>key. searchQueries st (fst key) = None) (reloadKeys loaded))"
    if "distinct (map fst (reloadKeys loaded))"
      "list_all (\<lambda>key. searchQueries st (fst key) \<noteq> Some []) (reloadKeys loaded)"
    using processSearchQueries_loads [OF p that(1)] that(2) by (simp add: c n)
qed

text \<open>
  C1 (as the code has it). The search file is emptied and given its header once, at
  the start of the process, before the configuration is processed for the first time.
  A reload that runs to its end does not reset it: the file afterwards is the file
  before followed by the rows that the loads of this reload brought, load after load,
  and nothing else. The loads of a reload are loads of requests of its Queries section,
  in the order of the section; when the keys of the section are distinct and the cache
  holds none of them with empty content, they are the loads of exactly the requests
  whose ID the cache does not hold. Over any run of reloads and polls the file before
  stays a prefix of the file after, so rows of earlier reloads remain.
\<close>

theorem search_store_grows:
  "(\<exists>st1. startup net loaded st0 = processMonitorFile net loaded st1
        \<and> searchResultsFile st1 = [csvHeader])
   \<and> (processMonitorFile net loaded st = Inr st' \<longrightarrow>
        fetches st' = fetches st @ newFetches st st'
        \<and> searchResultsFile st'
            = searchResultsFile st @ loadsRows net (length (fetches st)) (newFetches st st')
        \<and> (\<exists>ks. subseq ks (reloadKeys loaded) \<and> newFetches st st' = map requestLoad ks)
        \<and> (distinct (map fst (reloadKeys loaded))
             \<and> list_all (\<lambda>key. searchQueries st (fst key) \<noteq> Some []) (reloadKeys loaded) \<longrightarrow>
             newFetches st st'
               = map requestLoad
                   (filter (\<lambda>key. searchQueries st (fst key) = None) (reloadKeys loaded))))
   \<and> (run net md5Sum es st = Inr st' \<longrightarrow>
        prefix (searchResultsFile st) (searchResultsFile st'))"
proof -
  have 1: "\<exists>st1. startup net loaded st0 = processMonitorFile net loaded st1
        \<and> searchResultsFile st1 = [csvHeader]"
    by (rule exI [of _ "writeMonitorCSVHeader (writeSearchCSVHeader (cleanMonitorCSV (cleanSearchCSV st0)))"])
      (simp add: startup_def writeMonitorCSVHeader_def writeSearchCSVHeader_def
        cleanMonitorCSV_def cleanSearchCSV_def)
  have 2: "fetches st' = fetches st @ newFetches st st'
        \<and> searchResultsFile st'
            = searchResultsFile st @ loadsRows net (length (fetches st)) (newFetches st st')
        \<and> (\<exists>ks. subseq ks (reloadKeys loaded) \<and> newFetches st st' = map requestLoad ks)
        \<and> (distinct (map fst (reloadKeys loaded))
             \<and> list_all (\<lambda>key. searchQueries st (fst key) \<noteq> Some []) (reloadKeys loaded) \<longrightarrow>
             newFetches st st'
               = map requestLoad
                   (filter (\<lambda>key. searchQueries st (fst key) = None) (reloadKeys loaded)))"
    if p: "processMonitorFile net loaded st = Inr st'"
    using reload_rows(1) [OF p] reload_rows(2) [OF p] reload_rows(3) [OF p] reload_rows(4) [OF p]
    by (intro conjI impI) (assumption, assumption, assumption, elim conjE)
  have 3: "prefix (searchResultsFile st) (searchResultsFile st')"
    if "run net md5Sum es st = Inr st'"
    using that by (rule run_prefix)
  from 1 2 3 show ?thesis by blast
qed

lemma earthshaker_example:
  "reloadKeys (Some (queriesConfig earthshakerKeys)) = earthshakerKeys"
  "distinct (map fst earthshakerKeys)"
  "list_all (\<lambda>key. searchQueries (initial [csvHeader] [csvHeader]) (fst key) \<noteq> Some [])
     earthshakerKeys"
  "filter (\<lambda>key. searchQueries (initial [csvHeader] [csvHeader]) (fst key) = None) earthshakerKeys
     = earthshakerKeys"
  "map fst (map requestLoad earthshakerKeys) = [''q1'', ''q2'']"
  "loadsRows swordNetwork (length (fetches (initial [csvHeader] [csvHeader])))
     (map requestLoad earthshakerKeys)
     = [[''q1'', ''Fabled Earthshaker'', ''70,000'', ''Baelish''],
        [''q1'', ''Fabled Earthshaker'', ''75,000'', ''Coinbuddy''],
        [''q2'', ''Fabled Earthshaker'', ''70,000'', ''Baelish''],
        [''q2'', ''Fabled Earthshaker'', ''75,000'', ''Coinbuddy'']]"
  by code_simp+

theorem search_store_grows_witness:
  "(\<exists>st1. startup swordNetwork (Some (queriesConfig earthshakerKeys)) (initial [[''old'']] [])
            = processMonitorFile swordNetwork (Some (queriesConfig earthshakerKeys)) st1
        \<and> searchResultsFile st1 = [csvHeader])
   \<and> (\<exists>st'. processMonitorFile swordNetwork (Some (queriesConfig earthshakerKeys))
              (initial [csvHeader] [csvHeader]) = Inr st'
        \<and> distinct (map fst (reloadKeys (Some (queriesConfig earthshakerKeys))))
        \<and> list_all (\<lambda>key. searchQueries (initial [csvHeader] [csvHeader]) (fst key) \<noteq> Some [])
              (reloadKeys (Some (queriesConfig earthshakerKeys)))
        \<and> map fst (newFetches (initial [csvHeader] [csvHeader]) st') = [''q1'', ''q2'']
        \<and> searchResultsFile st'
            = [csvHeader,
               [''q1'', ''Fabled Earthshaker'', ''70,000'', ''Baelish''],
               [''q1'', ''Fabled Earthshaker'', ''75,000'', ''Coinbuddy''],
               [''q2'', ''Fabled Earthshaker'', ''70,000'', ''Baelish''],
               [''q2'', ''Fabled Earthshaker'', ''75,000'', ''Coinbuddy'']])
   \<and> (\<exists>st'. run swordNetwork shardSum [Reload (Some (queriesConfig earthshakerKeys)), Poll]
              (initial [csvHeader] [csvHeader]) = Inr st'
        \<and> prefix (searchResultsFile (initial [csvHeader] [csvHeader])) (searchResultsFile st'))"
proof -
  let ?l = "Some (queriesConfig earthshakerKeys)" and ?st = "initial [csvHeader] [csvHeader]"
  let ?es = "[Reload (Some (queriesConfig earthshakerKeys)), Poll]"
  obtain st' where p: "processMonitorFile swordNetwork ?l ?st = Inr st'"
    using processMonitorFile_effect [of swordNetwork "queriesConfig earthshakerKeys" ?st] by blast
  obtain st'' where r: "run swordNetwork shardSum ?es ?st = Inr st''"
    using run_example by (cases "run swordNetwork shardSum ?es ?st") simp_all
  note t = search_store_grows [of swordNetwork ?l "initial [[''old'']] []" ?st st' shardSum "[]"]
  note u = search_store_grows [of swordNetwork ?l "initial [[''old'']] []" ?st st'' shardSum ?es]
  note a = conjunct1 [OF t]
  from conjunct1 [OF conjunct2 [OF t]] p
  have n: "newFetches ?st st' = map requestLoad earthshakerKeys"
    and f: "searchResultsFile st'
            = searchResultsFile ?st @ loadsRows swordNetwork (length (fetches ?st)) (newFetches ?st st')"
    by (simp_all add: earthshaker_example)
  have d: "distinct (map fst (reloadKeys ?l))"
    and e: "list_all (\<lambda>key. searchQueries ?st (fst key) \<noteq> Some []) (reloadKeys ?l)"
    by (simp_all only: earthshaker_example)
  from n have g: "map fst (newFetches ?st st') = [''q1'', ''q2'']"
    by (simp only: earthshaker_example)
  from f n have h: "searchResultsFile st'
            = [csvHeader,
               [''q1'', ''Fabled Earthshaker'', ''70,000'', ''Baelish''],
               [''q1'', ''Fabled Earthshaker'', ''75,000'', ''Coinbuddy''],
               [''q2'', ''Fabled Earthshaker'', ''70,000'', ''Baelish''],
               [''q2'', ''Fabled Earthshaker'', ''75,000'', ''Coinbuddy'']]"
    by (simp add: earthshaker_example) (simp add: initial_def)
  have b: "\<exists>st'. processMonitorFile swordNetwork ?l ?st = Inr st'
        \<and> distinct (map fst (reloadKeys ?l))
        \<and> list_all (\<lambda>key. searchQueries ?st (fst key) \<noteq> Some []) (reloadKeys ?l)
        \<and> map fst (newFetches ?st st') = [''q1'', ''q2'']
        \<and> searchResultsFile st'
            = [csvHeader,
               [''q1'', ''Fabled Earthshaker'', ''70,000'', ''Baelish''],
               [''q1'', ''Fabled Earthshaker'', ''75,000'', ''Coinbuddy''],
               [''q2'', ''Fabled Earthshaker'', ''70,000'', ''Baelish''],
               [''q2'', ''Fabled Earthshaker'', ''75,000'', ''Coinbuddy'']]"
    by (rule exI [of _ st']) (intro conjI p d e g h)
  from conjunct2 [OF conjunct2 [OF u]] r
  have "prefix (searchResultsFile ?st) (searchResultsFile st'')" by simp
  with r have c: "\<exists>st'. run swordNetwork shardSum ?es ?st = Inr st'
        \<and> prefix (searchResultsFile ?st) (searchResultsFile st')"
    by (intro exI conjI)
  show ?thesis by (intro conjI a b c)
qed

text \<open>
  C1 as the specification words it says that every reload resets the search file,
  so that no row of an earlier reload is left after it. Here the first reload (at the
  start) loads request q1, the second finds q1 in the cache and loads only q2, and the
  rows of q1 are still in the file after the second reload.
\<close>

theorem search_store_reset_counterexample:
  "map_sum id searchResultsFile
     (case startup swordNetwork (Some (queriesConfig [(''q1'', ''Name|Fabled Earthshaker'')]))
             (initial [] []) of
        Inl f \<Rightarrow> Inl f
      | Inr st1 \<Rightarrow> processMonitorFile swordNetwork (Some (queriesConfig earthshakerKeys)) st1)
   = Inr [csvHeader,
          [''q1'', ''Fabled Earthshaker'', ''70,000'', ''Baelish''],
          [''q1'', ''Fabled Earthshaker'', ''75,000'', ''Coinbuddy''],
          [''q2'', ''Fabled Earthshaker'', ''70,000'', ''Baelish''],
          [''q2'', ''Fabled Earthshaker'', ''75,000'', ''Coinbuddy'']]
   \<and> map_sum id (map fst)
       (case startup swordNetwork (Some (queriesConfig [(''q1'', ''Name|Fabled Earthshaker'')]))
             (initial [] []) of
        Inl f \<Rightarrow> Inl f
      | Inr st1 \<Rightarrow>
          map_sum id (newFetches st1)
            (processMonitorFile swordNetwork (Some (queriesConfig earthshakerKeys)) st1))
     = Inr [''q2'']"
  by code_simp





lemma failed_example:
  "searchTermsLoop [] (reSearchTerms ''Name|Fabled Earthshaker'')
     = Inr [\<lparr>Key = ''Name'', Val = ''Fabled Earthshaker''\<rparr>]"
  "(case run flakyNetwork shardSum laterEvents failedState of Inl f \<Rightarrow> False | Inr st3 \<Rightarrow> True)"
  "map fst (reloadFetches flakyNetwork shardSum laterEvents failedState) = [''q2'']"
  by code_simp+

text \<open>
  C10 (as the code has it). A search request with non-empty raw content whose query
  returns an error is in the cache under its ID with that content (the cache is
  written before the query), and no row is written for it. From then on, from every
  state in which the cache holds that content for the ID, the rest of the search loop
  and every run of reloads and polls leave the cache entry as it is, never load the ID
  again and write no row for it.
\<close>

theorem failed_search_never_retried:
  "(content \<noteq> [] \<and> getSearchQuery queryID st = []
      \<and> searchTermsLoop [] (reSearchTerms content) = Inr ts
      \<and> queryResult net queryID ts (updateSearchQueries queryID content st) = Inl err \<longrightarrow>
     (\<exists>st1. processSearchQuery net (queryID, content) st = Inr st1
         \<and> searchQueries st1 queryID = Some content
         \<and> newFetches st st1 = [(queryID, buildURL ts)]
         \<and> searchResultsFile st1 = searchResultsFile st))
   \<and> (content \<noteq> [] \<and> searchQueries st1 queryID = Some content \<longrightarrow>
        (processSearchQueries net keys st1 = Inr st2 \<longrightarrow>
           searchQueries st2 queryID = Some content
           \<and> list_all (\<lambda>f. fst f \<noteq> queryID) (newFetches st1 st2)
           \<and> rowsFor queryID (searchResultsFile st2) = rowsFor queryID (searchResultsFile st1))
        \<and> (run net md5Sum es st1 = Inr st3 \<longrightarrow>
           searchQueries st3 queryID = Some content
           \<and> list_all (\<lambda>f. fst f \<noteq> queryID) (reloadFetches net md5Sum es st1)
           \<and> rowsFor queryID (searchResultsFile st3) = rowsFor queryID (searchResultsFile st1)))"
proof -
  have 1: "\<exists>st1. processSearchQuery net (queryID, content) st = Inr st1
         \<and> searchQueries st1 queryID = Some content
         \<and> newFetches st st1 = [(queryID, buildURL ts)]
         \<and> searchResultsFile st1 = searchResultsFile st"
    if g: "getSearchQuery queryID st = []"
      and t: "searchTermsLoop [] (reSearchTerms content) = Inr ts"
      and q: "queryResult net queryID ts (updateSearchQueries queryID content st) = Inl err"
  proof -
    from g have g': "getSearchQuery (fst (queryID, content)) st = []" by simp
    from processSearchQuery_miss [OF g', of net] t obtain st1
      where m: "processSearchQuery net (queryID, content) st = Inr st1
           \<and> searchQueries st1 = (searchQueries st)(queryID \<mapsto> content)
           \<and> fetches st1 = fetches st @ [(queryID, buildURL ts)]
           \<and> searchResultsFile st1 = searchResultsFile st
                @ rowsOrNone (queryResult net queryID ts (updateSearchQueries queryID content st))"
      by auto
    with q show ?thesis by (simp add: rowsOrNone_def newFetches_def)
  qed
  have c: "getSearchQuery queryID st1 \<noteq> []"
    if "content \<noteq> []" "searchQueries st1 queryID = Some content"
    using that by (simp add: getSearchQuery_def)
  have 2: "searchQueries st2 queryID = Some content
           \<and> list_all (\<lambda>f. fst f \<noteq> queryID) (newFetches st1 st2)
           \<and> rowsFor queryID (searchResultsFile st2) = rowsFor queryID (searchResultsFile st1)"
    if "content \<noteq> []" "searchQueries st1 queryID = Some content"
      "processSearchQueries net keys st1 = Inr st2"
    using cached_search [OF that(3) c [OF that(1,2)]] that(2) by simp
  have 3: "searchQueries st3 queryID = Some content
           \<and> list_all (\<lambda>f. fst f \<noteq> queryID) (reloadFetches net md5Sum es st1)
           \<and> rowsFor queryID (searchResultsFile st3) = rowsFor queryID (searchResultsFile st1)"
    if "content \<noteq> []" "searchQueries st1 queryID = Some content"
      "run net md5Sum es st1 = Inr st3"
    using cached_run [OF that(3) c [OF that(1,2)]] that(2) by simp
  from 1 2 3 show ?thesis by blast
qed

theorem failed_search_never_retried_witness:
  "''Name|Fabled Earthshaker'' \<noteq> [] \<and> getSearchQuery ''q1'' (initial [] []) = []
   \<and> searchTermsLoop [] (reSearchTerms ''Name|Fabled Earthshaker'')
       = Inr [\<lparr>Key = ''Name'', Val = ''Fabled Earthshaker''\<rparr>]
   \<and> queryResult flakyNetwork ''q1'' [\<lparr>Key = ''Name'', Val = ''Fabled Earthshaker''\<rparr>]
        (updateSearchQueries ''q1'' ''Name|Fabled Earthshaker'' (initial [] [])) = Inl LoadURLError
   \<and> (\<exists>st1. processSearchQuery flakyNetwork (''q1'', ''Name|Fabled Earthshaker'') (initial [] [])
              = Inr st1
         \<and> searchQueries st1 ''q1'' = Some ''Name|Fabled Earthshaker''
         \<and> searchResultsFile st1 = [])
   \<and> searchQueries failedState ''q1'' = Some ''Name|Fabled Earthshaker''
   \<and> (\<exists>st2. processSearchQueries flakyNetwork earthshakerKeys failedState = Inr st2
         \<and> searchQueries st2 ''q1'' = Some ''Name|Fabled Earthshaker''
         \<and> list_all (\<lambda>f. fst f \<noteq> ''q1'') (newFetches failedState st2)
         \<and> rowsFor ''q1'' (searchResultsFile st2) = [])
   \<and> (\<exists>st3. run flakyNetwork shardSum laterEvents failedState = Inr st3
         \<and> searchQueries st3 ''q1'' = Some ''Name|Fabled Earthshaker''
         \<and> map fst (reloadFetches flakyNetwork shardSum laterEvents failedState) = [''q2'']
         \<and> rowsFor ''q1'' (searchResultsFile st3) = [])"
proof -
  let ?c = "''Name|Fabled Earthshaker''" and ?ts = "[\<lparr>Key = ''Name'', Val = ''Fabled Earthshaker''\<rparr>]"
  have h1: "?c \<noteq> []" by simp
  have h2: "getSearchQuery ''q1'' (initial [] []) = []"
    by (simp add: getSearchQuery_def initial_def)
  note h3 = failed_example(1)
  have h4: "queryResult flakyNetwork ''q1'' ?ts (updateSearchQueries ''q1'' ?c (initial [] []))
      = Inl LoadURLError"
    by (simp add: queryResult_def flakyNetwork_def updateSearchQueries_def initial_def)
  have h5: "searchQueries failedState ''q1'' = Some ?c"
    by (simp add: failedState_def updateSearchQueries_def)
  have e: "rowsFor ''q1'' (searchResultsFile failedState) = []"
    by (simp add: failedState_def updateSearchQueries_def initial_def rowsFor_def)
  obtain st2 where p: "processSearchQueries flakyNetwork earthshakerKeys failedState = Inr st2"
    using processSearchQueries_frame [of flakyNetwork earthshakerKeys failedState] by blast
  obtain st3 where r: "run flakyNetwork shardSum laterEvents failedState = Inr st3"
    using failed_example(2)
    by (cases "run flakyNetwork shardSum laterEvents failedState") simp_all
  note t = failed_search_never_retried [of ?c "''q1''" "initial [] []" ?ts flakyNetwork
      LoadURLError failedState earthshakerKeys st2 shardSum laterEvents st3]
  from t h1 h2 h3 h4 have a: "\<exists>st1. processSearchQuery flakyNetwork (''q1'', ?c) (initial [] []) = Inr st1
         \<and> searchQueries st1 ''q1'' = Some ?c \<and> searchResultsFile st1 = []"
    by (auto simp add: initial_def)
  from t h1 h5 p e have b: "searchQueries st2 ''q1'' = Some ?c
         \<and> list_all (\<lambda>f. fst f \<noteq> ''q1'') (newFetches failedState st2)
         \<and> rowsFor ''q1'' (searchResultsFile st2) = []"
    by simp
  from t h1 h5 r e have c: "searchQueries st3 ''q1'' = Some ?c
         \<and> rowsFor ''q1'' (searchResultsFile st3) = []"
    by simp
  have b': "\<exists>st2. processSearchQueries flakyNetwork earthshakerKeys failedState = Inr st2
         \<and> searchQueries st2 ''q1'' = Some ?c
         \<and> list_all (\<lambda>f. fst f \<noteq> ''q1'') (newFetches failedState st2)
         \<and> rowsFor ''q1'' (searchResultsFile st2) = []"
    by (rule exI [of _ st2]) (simp add: p b)
  have c': "\<exists>st3. run flakyNetwork shardSum laterEvents failedState = Inr st3
         \<and> searchQueries st3 ''q1'' = Some ?c
         \<and> map fst (reloadFetches flakyNetwork shardSum laterEvents failedState) = [''q2'']
         \<and> rowsFor ''q1'' (searchResultsFile st3) = []"
    by (rule exI [of _ st3]) (simp add: r c failed_example(3))
  show ?thesis by (intro conjI h1 h2 h3 h4 a h5 b' c')
qed

text \<open>
  C10 as the specification words it covers every request. In this run a request with
  empty raw content whose query fails is given to a second reload, which loads it again,
  and when that load succeeds its rows are written.
\<close>

theorem failed_empty_content_counterexample:
  "reloadFetches deadNetwork shardSum emptyReloads (initial [] [])
     = [(''q1'', lazUrl0), (''q1'', lazUrl0)]
   \<and> reloadFetches flakyNetwork shardSum emptyReloads (initial [] [])
     = [(''q1'', lazUrl0), (''q1'', lazUrl0)]
   \<and> map_sum id searchResultsFile (run flakyNetwork shardSum emptyReloads (initial [] []))
     = Inr [[''q1'', ''Fabled Earthshaker'', ''70,000'', ''Baelish''],
            [''q1'', ''Fabled Earthshaker'', ''75,000'', ''Coinbuddy'']]"
  by code_simp

end
